(* ===== verification/Prelude.thy ===== *)
theory Prelude
  imports Main "HOL-Library.Word" "HOL-Library.Monad_Syntax" "HOL-Library.Sublist"
begin

text \<open>
  Shared vocabulary of the development: C values (strings, fixed buffers, \<open>int\<close>,
  \<open>size_t\<close>), undefined behaviour as an option, decimal printing, the facts about lists
  that several components use, and the two generic interfaces of the library: first-in
  first-out queues and machines with an inductive invariant.

  A value of type \<^typ>\<open>string\<close> stands for the bytes of a C string before its terminator;
  \<open>is_cstr\<close> says that it holds no terminator itself. A computation that may have undefined
  behaviour (an access outside an object, a call through a null pointer, an overflow of a
  signed integer) has type \<^typ>\<open>'a option\<close>, with \<^term>\<open>None\<close> for the undefined
  behaviour; error codes that the program returns are values of the result type itself.
\<close>

unbundle bit_operations_syntax

named_theorems ts_defs \<open>definitions that component proofs unfold\<close>
named_theorems ts_wf \<open>well-formedness facts of the components\<close>

section \<open>C values\<close>

type_synonym cstring = string
type_synonym 'a ub = "'a option"

definition is_cstr :: "string \<Rightarrow> bool" where
  "is_cstr s \<longleftrightarrow> CHR 0x00 \<notin> set s"

lemma is_cstr_simps [simp]:
  "is_cstr []"
  "is_cstr (c # s) \<longleftrightarrow> c \<noteq> CHR 0x00 \<and> is_cstr s"
  "is_cstr (s @ t) \<longleftrightarrow> is_cstr s \<and> is_cstr t"
  by (auto simp: is_cstr_def)

lemma is_cstr_take [simp, intro]: "is_cstr s \<Longrightarrow> is_cstr (take n s)"
  by (auto simp: is_cstr_def dest: in_set_takeD)

lemma is_cstr_drop [simp, intro]: "is_cstr s \<Longrightarrow> is_cstr (drop n s)"
  by (auto simp: is_cstr_def dest: in_set_dropD)

definition c_string_of :: "string \<Rightarrow> string" where
  \<comment> \<open>the C string that starts at these bytes\<close>
  "c_string_of bytes = takeWhile (\<lambda>c. c \<noteq> CHR 0x00) bytes"

text \<open>\<open>snprintf(buf, n, "%s", s)\<close> leaves the first \<open>n - 1\<close> bytes of \<open>s\<close> in a buffer of \<open>n\<close>
  bytes.\<close>

definition snprintf_buf :: "nat \<Rightarrow> string \<Rightarrow> string" where
  "snprintf_buf n s = take (n - 1) s"

lemma snprintf_buf_fits [simp]: "length s < n \<Longrightarrow> snprintf_buf n s = s"
  by (simp add: snprintf_buf_def)

lemma length_snprintf_buf: "0 < n \<Longrightarrow> length (snprintf_buf n s) < n"
  by (simp add: snprintf_buf_def)

lemma is_cstr_snprintf_buf [simp, intro]: "is_cstr s \<Longrightarrow> is_cstr (snprintf_buf n s)"
  by (simp add: snprintf_buf_def)

definition c_int_max :: int where
  "c_int_max = 2147483647"

definition to_c_int :: "int \<Rightarrow> int" where
  \<comment> \<open>the conversion of a \<open>long\<close> to a 32-bit \<open>int\<close>\<close>
  "to_c_int x = (x + 2147483648) mod 4294967296 - 2147483648"

definition size_inc :: "nat \<Rightarrow> nat" where
  \<comment> \<open>\<open>++\<close> on a 64-bit \<open>size_t\<close>\<close>
  "size_inc n = (n + 1) mod 18446744073709551616"

lemma to_c_int_id: "- 2147483648 \<le> x \<Longrightarrow> x \<le> c_int_max \<Longrightarrow> to_c_int x = x"
  by (simp add: to_c_int_def c_int_max_def)

lemma size_inc_Suc: "Suc n < 18446744073709551616 \<Longrightarrow> size_inc n = Suc n"
  by (simp add: size_inc_def)

text \<open>\<open>++\<close> on a signed \<open>int\<close>: the overflow is undefined behaviour.\<close>

definition c_int_inc :: "int \<Rightarrow> int ub" where
  "c_int_inc x = (if x < c_int_max then Some (x + 1) else None)"

lemma c_int_inc_Some [simp]: "c_int_inc x = Some y \<longleftrightarrow> x < c_int_max \<and> y = x + 1"
  by (auto simp: c_int_inc_def)

section \<open>Decimal output (\<open>%d\<close>, \<open>%zu\<close>)\<close>

definition digit_char :: "nat \<Rightarrow> char" where
  "digit_char d = char_of (48 + d)"

fun show_nat :: "nat \<Rightarrow> string" where
  "show_nat n = (if n < 10 then [digit_char n] else show_nat (n div 10) @ [digit_char (n mod 10)])"

declare show_nat.simps [simp del]

definition show_int :: "int \<Rightarrow> string" where
  "show_int i = (if i < 0 then CHR ''-'' # show_nat (nat (- i)) else show_nat (nat i))"

definition is_digit :: "char \<Rightarrow> bool" where
  "is_digit c \<longleftrightarrow> 48 \<le> (of_char c :: nat) \<and> (of_char c :: nat) \<le> 57"

definition digit_value :: "char \<Rightarrow> nat" where
  "digit_value c = of_char c - 48"

lemma of_digit_char [simp]: "d < 10 \<Longrightarrow> (of_char (digit_char d) :: nat) = 48 + d"
  by (simp add: digit_char_def)

lemma digit_char_digit [simp]: "d < 10 \<Longrightarrow> is_digit (digit_char d)"
  by (simp add: is_digit_def)

lemma digit_value_char [simp]: "d < 10 \<Longrightarrow> digit_value (digit_char d) = d"
  by (simp add: digit_value_def)

lemma show_nat_nonempty [simp]: "show_nat n \<noteq> []"
  by (subst show_nat.simps) simp

lemma show_nat_digits: "\<forall>c \<in> set (show_nat n). is_digit c"
proof (induction n rule: show_nat.induct)
  case (1 n)
  then show ?case by (subst show_nat.simps) auto
qed

text \<open>Reading the digits back, as \<open>strtol\<close> and \<open>atoi\<close> do, gives the number.\<close>

definition digits_value :: "string \<Rightarrow> nat" where
  "digits_value s = foldl (\<lambda>n c. 10 * n + digit_value c) 0 s"

lemma digits_value_show_nat [simp]: "digits_value (show_nat n) = n"
proof (induction n rule: show_nat.induct)
  case (1 n)
  then show ?case
    by (subst show_nat.simps) (auto simp: digits_value_def)
qed

lemma show_nat_inj: "show_nat m = show_nat n \<Longrightarrow> m = n"
  by (metis digits_value_show_nat)

lemma is_digit_not_dash: "\<not> is_digit CHR ''-''"
  by (simp add: is_digit_def)

lemma is_digit_not_nul: "\<not> is_digit CHR 0x00"
  by (simp add: is_digit_def)

lemma show_nat_no_dash: "CHR ''-'' \<notin> set (show_nat n)"
  using show_nat_digits is_digit_not_dash by blast

lemma show_int_inj: "show_int a = show_int b \<Longrightarrow> a = b"
proof (cases "a < 0"; cases "b < 0")
  assume "show_int a = show_int b" "a < 0" "b < 0"
  then show "a = b" by (auto simp: show_int_def dest: show_nat_inj)
next
  assume "show_int a = show_int b" "a < 0" "\<not> b < 0"
  then have "show_nat (nat b) = CHR ''-'' # show_nat (nat (- a))" by (simp add: show_int_def)
  with show_nat_no_dash [of "nat b"] show "a = b" by simp
next
  assume "show_int a = show_int b" "\<not> a < 0" "b < 0"
  then have "show_nat (nat a) = CHR ''-'' # show_nat (nat (- b))" by (simp add: show_int_def)
  with show_nat_no_dash [of "nat a"] show "a = b" by simp
next
  assume "show_int a = show_int b" "\<not> a < 0" "\<not> b < 0"
  then show "a = b" by (auto simp: show_int_def dest: show_nat_inj)
qed

lemma show_int_eq_iff [simp]: "show_int a = show_int b \<longleftrightarrow> a = b"
  by (blast intro: show_int_inj)

lemma is_cstr_show_nat [simp]: "is_cstr (show_nat n)"
  using show_nat_digits is_digit_not_nul by (auto simp: is_cstr_def)

lemma is_cstr_show_int [simp]: "is_cstr (show_int i)"
  by (simp add: show_int_def)

lemma length_show_nat: "n < 10 ^ k \<Longrightarrow> 0 < k \<Longrightarrow> length (show_nat n) \<le> k"
proof (induction k arbitrary: n)
  case (Suc k)
  show ?case
  proof (cases "n < 10")
    case True
    then show ?thesis by (simp add: show_nat.simps [of n])
  next
    case False
    with Suc.prems have "0 < k" by (cases k) auto
    moreover have "n div 10 < 10 ^ k" using Suc.prems(1) by (simp add: less_mult_imp_div_less mult.commute)
    ultimately show ?thesis using Suc.IH [of "n div 10"] False by (simp add: show_nat.simps [of n])
  qed
qed simp

lemma length_show_int: "0 \<le> i \<Longrightarrow> i \<le> c_int_max \<Longrightarrow> length (show_int i) \<le> 10"
  by (auto simp: show_int_def c_int_max_def intro!: length_show_nat)

text \<open>A byte that lies early enough survives the truncation.\<close>

lemma in_snprintf_buf:
  "x \<in> set b \<Longrightarrow> length a + length b < n \<Longrightarrow> x \<in> set (snprintf_buf n (a @ b @ c))"
  by (simp add: snprintf_buf_def)

section \<open>First-in first-out queues\<close>

text \<open>
  The contract of the two queues of the program (the pending operations of a client, the
  inbound messages of the terminal): \<open>push\<close> appends, \<open>pop\<close> takes the oldest element.
\<close>

locale fifo =
  fixes items :: "'q \<Rightarrow> 'a list"
    and inv :: "'q \<Rightarrow> bool"
    and push :: "'a \<Rightarrow> 'q \<Rightarrow> 'q"
    and pop :: "'q \<Rightarrow> ('a \<times> 'q) option"
  assumes push_items: "inv q \<Longrightarrow> items (push x q) = items q @ [x]"
    and push_inv: "inv q \<Longrightarrow> inv (push x q)"
    and pop_empty: "inv q \<Longrightarrow> items q = [] \<Longrightarrow> pop q = None"
    and pop_items: "inv q \<Longrightarrow> items q = x # xs \<Longrightarrow>
      \<exists>q'. pop q = Some (x, q') \<and> items q' = xs \<and> inv q'"
begin

lemma push_all:
  assumes "inv q"
  shows "inv (fold push xs q) \<and> items (fold push xs q) = items q @ xs"
  using assms
proof (induction xs arbitrary: q)
  case (Cons x xs)
  then show ?case by (simp add: push_items push_inv)
qed simp

lemma pop_None_iff: "inv q \<Longrightarrow> pop q = None \<longleftrightarrow> items q = []"
  using pop_empty pop_items by (cases "items q") fastforce+

lemma pop_SomeD:
  assumes "inv q" and "pop q = Some (x, q')"
  shows "items q = x # items q' \<and> inv q'"
proof (cases "items q")
  case Nil
  with assms show ?thesis by (simp add: pop_empty)
next
  case (Cons y ys)
  from pop_items [OF assms(1) this] assms(2) Cons show ?thesis by auto
qed

text \<open>Taking elements out until the queue is empty gives them in the order of arrival.\<close>

fun drain :: "nat \<Rightarrow> 'q \<Rightarrow> 'a list \<times> 'q" where
  "drain 0 q = ([], q)"
| "drain (Suc n) q =
     (case pop q of
        None \<Rightarrow> ([], q)
      | Some (x, q') \<Rightarrow> (let (xs, q'') = drain n q' in (x # xs, q'')))"

lemma drain_items:
  "inv q \<Longrightarrow> length (items q) \<le> n \<Longrightarrow>
    fst (drain n q) = items q \<and> items (snd (drain n q)) = [] \<and> inv (snd (drain n q))"
proof (induction n arbitrary: q)
  case (Suc n)
  show ?case
  proof (cases "pop q")
    case None
    with Suc.prems(1) have "items q = []" by (simp add: pop_None_iff)
    with None Suc.prems(1) show ?thesis by simp
  next
    case (Some p)
    then obtain x q' where p: "pop q = Some (x, q')" by (cases p) auto
    from pop_SomeD [OF Suc.prems(1) p] Suc.prems(2) have "inv q'" "items q = x # items q'"
      "length (items q') \<le> n" by auto
    with Suc.IH [of q'] p show ?thesis by (auto split: prod.splits)
  qed
qed simp

theorem fifo_order:
  assumes "inv q" and "items q = []" and "length xs \<le> n"
  shows "fst (drain n (fold push xs q)) = xs"
  using push_all [OF assms(1), of xs] drain_items [of "fold push xs q" n] assms by simp

end

section \<open>Machines with an inductive invariant\<close>

text \<open>
  A component whose operations are partial (undefined behaviour is \<^term>\<open>None\<close>): if every
  operation keeps the invariant and is defined under it, every run is defined and ends in
  a state that satisfies it.
\<close>

fun run_ops :: "('e \<Rightarrow> 's \<Rightarrow> 's option) \<Rightarrow> 'e list \<Rightarrow> 's \<Rightarrow> 's option" where
  "run_ops step [] s = Some s"
| "run_ops step (e # es) s = (case step e s of None \<Rightarrow> None | Some s' \<Rightarrow> run_ops step es s')"

lemma run_ops_append:
  "run_ops step (xs @ ys) s =
    (case run_ops step xs s of None \<Rightarrow> None | Some s' \<Rightarrow> run_ops step ys s')"
  by (induction xs arbitrary: s) (auto split: option.splits)

locale inv_machine =
  fixes step :: "'e \<Rightarrow> 's \<Rightarrow> 's option"
    and inv :: "'s \<Rightarrow> bool"
    and ok :: "'e \<Rightarrow> bool"
  assumes step_inv: "inv s \<Longrightarrow> ok e \<Longrightarrow> step e s = Some s' \<Longrightarrow> inv s'"
begin

theorem run_inv: "inv s \<Longrightarrow> list_all ok es \<Longrightarrow> run_ops step es s = Some s' \<Longrightarrow> inv s'"
proof (induction es arbitrary: s)
  case (Cons e es)
  then show ?case by (auto split: option.splits intro: step_inv)
qed simp

end

text \<open>\<open>room\<close> bounds how many more operations the state can take, for instance before a
  counter reaches \<open>INT_MAX\<close>.\<close>

locale safe_machine = inv_machine +
  fixes room :: "'b \<Rightarrow> nat"
  assumes step_defined: "inv s \<Longrightarrow> ok e \<Longrightarrow> 0 < room s \<Longrightarrow>
      \<exists>s'. step e s = Some s' \<and> room s \<le> Suc (room s')"
begin

theorem run_defined:
  "inv s \<Longrightarrow> list_all ok es \<Longrightarrow> length es \<le> room s \<Longrightarrow>
    \<exists>s'. run_ops step es s = Some s' \<and> inv s'"
proof (induction es arbitrary: s)
  case (Cons e es)
  then obtain s' where s': "step e s = Some s'" "room s \<le> Suc (room s')"
    using step_defined [of s e] by auto
  with Cons.prems have "inv s'" "length es \<le> room s'" by (auto intro: step_inv)
  with Cons s' show ?case by auto
qed simp

end

section \<open>Links that carry messages as bytes\<close>

text \<open>
  The contract between what writes messages into a byte stream and what reads them out of it:
  a read takes exactly the bytes of the first message off the stream and gives that message.
  \<open>live\<close> says that the stream has not failed.
\<close>

fun read_times :: "('s \<Rightarrow> ('r \<times> 's) option) \<Rightarrow> nat \<Rightarrow> 's \<Rightarrow> ('r list \<times> 's) option" where
  "read_times recv 0 s = Some ([], s)"
| "read_times recv (Suc n) s = do {
     (r, s) \<leftarrow> recv s;
     (rs, s) \<leftarrow> read_times recv n s;
     Some (r # rs, s)
   }"

locale framed_link =
  fixes enc :: "'m \<Rightarrow> string"
    and good :: "'m \<Rightarrow> bool"
    and out :: "'m \<Rightarrow> 'r"
    and stream :: "'s \<Rightarrow> string"
    and live :: "'s \<Rightarrow> bool"
    and recv :: "'s \<Rightarrow> ('r \<times> 's) option"
  assumes recv_enc: "good m \<Longrightarrow> live s \<Longrightarrow> stream s = enc m @ rest \<Longrightarrow>
      \<exists>s'. recv s = Some (out m, s') \<and> stream s' = rest \<and> live s'"
begin

theorem recv_all:
  "list_all good ms \<Longrightarrow> live s \<Longrightarrow> stream s = concat (map enc ms) @ rest \<Longrightarrow>
    \<exists>s'. read_times recv (length ms) s = Some (map out ms, s') \<and> stream s' = rest \<and> live s'"
proof (induction ms arbitrary: s)
  case (Cons m ms)
  then obtain s1 where s1: "recv s = Some (out m, s1)" "stream s1 = concat (map enc ms) @ rest" "live s1"
    using recv_enc [of m s "concat (map enc ms) @ rest"] by auto
  with Cons.IH [of s1] Cons.prems(1) obtain s2 where
    "read_times recv (length ms) s1 = Some (map out ms, s2)" "stream s2 = rest" "live s2" by auto
  with s1 show ?case by simp
qed simp

end

end
