(* ===== verification/Operation.thy ===== *)
theory Operation
  imports Prelude
begin

text \<open>
  The editing operations of \<open>termsync.h\<close> and their helpers in \<open>util.c\<close>: the enumeration
  \<open>TsOpKind\<close>, the structure \<open>TsOperation\<close> with its fixed buffers, construction, the
  protocol names of the kinds, and \<open>ts_strdup\<close>. A pointer that may be null is an option.
\<close>

section \<open>Types\<close>

datatype TsOpKind = TS_OP_INVALID | TS_OP_INSERT | TS_OP_DELETE | TS_OP_NOOP

text \<open>\<open>op_pos\<close> is a 64-bit \<open>size_t\<close>; \<open>op_ch\<close> and \<open>op_reason\<close> are buffers of 8 and 160 bytes.\<close>

record TsOperation =
  op_kind :: TsOpKind
  op_pos :: nat
  op_ch :: string
  op_reason :: string

definition TS_MAX_TYPE :: nat where "TS_MAX_TYPE = 32"
definition TS_MAX_CLIENT_ID :: nat where "TS_MAX_CLIENT_ID = 64"
definition TS_MAX_OP_ID :: nat where "TS_MAX_OP_ID = 64"
definition TS_MAX_STATUS :: nat where "TS_MAX_STATUS = 160"
definition TS_MAX_REASON :: nat where "TS_MAX_REASON = 160"
definition TS_MAX_UTF8_CHAR :: nat where "TS_MAX_UTF8_CHAR = 8"

lemmas ts_sizes = TS_MAX_TYPE_def TS_MAX_CLIENT_ID_def TS_MAX_OP_ID_def TS_MAX_STATUS_def
  TS_MAX_REASON_def TS_MAX_UTF8_CHAR_def

text \<open>The kinds are the enumeration's constants in their order, so statements over all kinds
  evaluate and kinds compare as the C constants 0 to 3 do.\<close>

definition op_code :: "TsOpKind \<Rightarrow> nat" where
  "op_code k = (case k of TS_OP_INVALID \<Rightarrow> 0 | TS_OP_INSERT \<Rightarrow> 1 | TS_OP_DELETE \<Rightarrow> 2 | TS_OP_NOOP \<Rightarrow> 3)"

lemma op_code_inj: "op_code a = op_code b \<Longrightarrow> a = b"
  by (cases a; cases b) (simp_all add: op_code_def)

instantiation TsOpKind :: linorder
begin

definition less_eq_TsOpKind :: "TsOpKind \<Rightarrow> TsOpKind \<Rightarrow> bool" where
  "less_eq_TsOpKind a b \<longleftrightarrow> op_code a \<le> op_code b"

definition less_TsOpKind :: "TsOpKind \<Rightarrow> TsOpKind \<Rightarrow> bool" where
  "less_TsOpKind a b \<longleftrightarrow> op_code a < op_code b"

instance
  by standard (auto simp: less_eq_TsOpKind_def less_TsOpKind_def intro: op_code_inj)

end

instantiation TsOpKind :: enum
begin

definition enum_TsOpKind :: "TsOpKind list" where
  "enum_TsOpKind = [TS_OP_INVALID, TS_OP_INSERT, TS_OP_DELETE, TS_OP_NOOP]"

definition enum_all_TsOpKind :: "(TsOpKind \<Rightarrow> bool) \<Rightarrow> bool" where
  "enum_all_TsOpKind P \<longleftrightarrow> P TS_OP_INVALID \<and> P TS_OP_INSERT \<and> P TS_OP_DELETE \<and> P TS_OP_NOOP"

definition enum_ex_TsOpKind :: "(TsOpKind \<Rightarrow> bool) \<Rightarrow> bool" where
  "enum_ex_TsOpKind P \<longleftrightarrow> P TS_OP_INVALID \<or> P TS_OP_INSERT \<or> P TS_OP_DELETE \<or> P TS_OP_NOOP"

instance
proof
  show univ: "(UNIV :: TsOpKind set) = set enum_class.enum"
    by (auto simp: enum_TsOpKind_def intro: TsOpKind.exhaust)
  show "distinct (enum_class.enum :: TsOpKind list)"
    by (simp add: enum_TsOpKind_def)
  fix P :: "TsOpKind \<Rightarrow> bool"
  show "enum_class.enum_all P \<longleftrightarrow> Ball UNIV P"
    unfolding univ by (simp add: enum_all_TsOpKind_def enum_TsOpKind_def)
  show "enum_class.enum_ex P \<longleftrightarrow> Bex UNIV P"
    unfolding univ by (simp add: enum_ex_TsOpKind_def enum_TsOpKind_def)
qed

end

section \<open>Construction and names\<close>

definition zero_operation :: TsOperation where
  \<comment> \<open>a \<open>TsOperation\<close> after \<open>memset(op, 0, sizeof(*op))\<close>\<close>
  "zero_operation = \<lparr>op_kind = TS_OP_INVALID, op_pos = 0, op_ch = [], op_reason = []\<rparr>"

definition ts_operation_init :: "TsOpKind \<Rightarrow> nat \<Rightarrow> string option \<Rightarrow> TsOperation" where
  "ts_operation_init kind pos ch =
     (let op = zero_operation\<lparr>op_kind := kind, op_pos := pos\<rparr> in
      case ch of None \<Rightarrow> op | Some s \<Rightarrow> op\<lparr>op_ch := snprintf_buf TS_MAX_UTF8_CHAR s\<rparr>)"

definition ts_operation_kind_name :: "TsOpKind \<Rightarrow> string" where
  "ts_operation_kind_name kind =
     (case kind of
        TS_OP_INSERT \<Rightarrow> ''insert''
      | TS_OP_DELETE \<Rightarrow> ''delete''
      | TS_OP_NOOP \<Rightarrow> ''noop''
      | _ \<Rightarrow> ''invalid'')"

definition ts_operation_kind_from_name :: "string option \<Rightarrow> TsOpKind" where
  "ts_operation_kind_from_name name =
     (case name of
        None \<Rightarrow> TS_OP_INVALID
      | Some s \<Rightarrow>
          if s = ''insert'' then TS_OP_INSERT
          else if s = ''delete'' then TS_OP_DELETE
          else if s = ''noop'' then TS_OP_NOOP
          else TS_OP_INVALID)"

definition ts_operation_clone :: "TsOperation \<Rightarrow> TsOperation" where
  "ts_operation_clone op = op"

definition ts_operation_noop :: "TsOperation option \<Rightarrow> string option \<Rightarrow> TsOperation" where
  "ts_operation_noop op reason =
     (let result = ts_operation_init TS_OP_NOOP (case op of Some o' \<Rightarrow> op_pos o' | None \<Rightarrow> 0) None in
      case reason of
        None \<Rightarrow> result
      | Some r \<Rightarrow> result\<lparr>op_reason := snprintf_buf TS_MAX_REASON r\<rparr>)"

definition ts_strdup :: "string option \<Rightarrow> string" where
  "ts_strdup value = (case value of None \<Rightarrow> [] | Some s \<Rightarrow> s)"

declare ts_operation_clone_def [simp]

lemma ts_strdup_simps [simp]: "ts_strdup None = []" "ts_strdup (Some s) = s"
  by (simp_all add: ts_strdup_def)

lemma ts_operation_init_simps [simp]:
  "op_kind (ts_operation_init k p c) = k"
  "op_pos (ts_operation_init k p c) = p"
  "op_reason (ts_operation_init k p c) = []"
  "op_ch (ts_operation_init k p None) = []"
  "op_ch (ts_operation_init k p (Some s)) = snprintf_buf TS_MAX_UTF8_CHAR s"
  by (simp_all add: ts_operation_init_def zero_operation_def Let_def split: option.splits)

lemma ts_operation_noop_simps [simp]:
  "op_kind (ts_operation_noop o' r) = TS_OP_NOOP"
  "op_pos (ts_operation_noop (Some p) r) = op_pos p"
  "op_ch (ts_operation_noop o' r) = []"
  by (simp_all add: ts_operation_noop_def Let_def split: option.splits)

lemma ts_operation_init_eq:
  "ts_operation_init k p (Some s) =
    \<lparr>op_kind = k, op_pos = p, op_ch = take 7 s, op_reason = []\<rparr>"
  "ts_operation_init k p None = \<lparr>op_kind = k, op_pos = p, op_ch = [], op_reason = []\<rparr>"
  by (simp_all add: ts_operation_init_def zero_operation_def ts_sizes snprintf_buf_def)

text \<open>Exactly the three operations that the protocol names survive a trip through their name.\<close>

lemma kind_from_name_of_name [simp]:
  "ts_operation_kind_from_name (Some (ts_operation_kind_name k)) = k"
  by (cases k) (simp_all add: ts_operation_kind_name_def ts_operation_kind_from_name_def)

lemma kind_name_of_from_name:
  "ts_operation_kind_from_name (Some s) \<noteq> TS_OP_INVALID \<Longrightarrow>
    ts_operation_kind_name (ts_operation_kind_from_name (Some s)) = s"
  by (simp add: ts_operation_kind_name_def ts_operation_kind_from_name_def split: if_splits)

section \<open>Well-formed operations\<close>

text \<open>What the type \<open>TsOperation\<close> itself guarantees: the position fits a \<open>size_t\<close>, the
  strings fit their buffers.\<close>

definition wf_operation :: "TsOperation \<Rightarrow> bool" where
  "wf_operation op \<longleftrightarrow>
     op_pos op < 18446744073709551616 \<and>
     is_cstr (op_ch op) \<and> length (op_ch op) < TS_MAX_UTF8_CHAR \<and>
     is_cstr (op_reason op) \<and> length (op_reason op) < TS_MAX_REASON"

lemma wf_operation_init:
  "pos < 18446744073709551616 \<Longrightarrow> (\<And>s. ch = Some s \<Longrightarrow> is_cstr s) \<Longrightarrow>
    wf_operation (ts_operation_init kind pos ch)"
  by (cases ch) (auto simp: wf_operation_def snprintf_buf_def ts_sizes)

lemma wf_operation_noop:
  "wf_operation op \<Longrightarrow> (\<And>s. reason = Some s \<Longrightarrow> is_cstr s) \<Longrightarrow>
    wf_operation (ts_operation_noop (Some op) reason)"
  by (cases reason)
    (auto simp: wf_operation_def ts_operation_noop_def Let_def snprintf_buf_def ts_sizes)

end
