(* ===== verification/Message.thy ===== *)
theory Message
  imports Operation
begin

text \<open>
  The protocol message \<open>TsMessage\<close> of \<open>termsync.h\<close> and its initialisation. The strings are
  fixed buffers, the versions 32-bit integers with \<open>-1\<close> for "not set", the content a pointer
  that may be null.
\<close>

record TsMessage =
  msg_type :: string
  msg_client_id :: string
  msg_op_id :: string
  msg_message :: string
  msg_reason :: string
  msg_base_version :: int
  msg_server_version :: int
  msg_version :: int
  msg_history_start_version :: int
  msg_op :: TsOperation
  msg_original_op :: TsOperation
  msg_has_op :: bool
  msg_has_original_op :: bool
  msg_content :: "string option"

definition zero_message :: TsMessage where
  \<comment> \<open>a \<open>TsMessage\<close> after \<open>memset(message, 0, sizeof(*message))\<close>\<close>
  "zero_message =
     \<lparr>msg_type = [], msg_client_id = [], msg_op_id = [], msg_message = [], msg_reason = [],
      msg_base_version = 0, msg_server_version = 0, msg_version = 0,
      msg_history_start_version = 0, msg_op = zero_operation, msg_original_op = zero_operation,
      msg_has_op = False, msg_has_original_op = False, msg_content = None\<rparr>"

definition ts_message_init :: TsMessage where
  "ts_message_init =
     zero_message\<lparr>msg_base_version := -1, msg_server_version := -1, msg_version := -1,
       msg_history_start_version := -1\<rparr>"

definition ts_message_free :: "TsMessage option \<Rightarrow> TsMessage option" where
  "ts_message_free message = map_option (\<lambda>m. m\<lparr>msg_content := None\<rparr>) message"

lemma ts_message_init_simps [simp]:
  "msg_type ts_message_init = []"
  "msg_client_id ts_message_init = []"
  "msg_op_id ts_message_init = []"
  "msg_message ts_message_init = []"
  "msg_reason ts_message_init = []"
  "msg_base_version ts_message_init = -1"
  "msg_server_version ts_message_init = -1"
  "msg_version ts_message_init = -1"
  "msg_history_start_version ts_message_init = -1"
  "msg_op ts_message_init = zero_operation"
  "msg_original_op ts_message_init = zero_operation"
  "msg_has_op ts_message_init = False"
  "msg_has_original_op ts_message_init = False"
  "msg_content ts_message_init = None"
  by (simp_all add: ts_message_init_def zero_message_def)

lemma TsMessage_eqI:
  fixes a b :: TsMessage
  assumes "msg_type a = msg_type b" "msg_client_id a = msg_client_id b" "msg_op_id a = msg_op_id b"
    "msg_message a = msg_message b" "msg_reason a = msg_reason b"
    "msg_base_version a = msg_base_version b" "msg_server_version a = msg_server_version b"
    "msg_version a = msg_version b" "msg_history_start_version a = msg_history_start_version b"
    "msg_op a = msg_op b" "msg_original_op a = msg_original_op b"
    "msg_has_op a = msg_has_op b" "msg_has_original_op a = msg_has_original_op b"
    "msg_content a = msg_content b"
  shows "a = b"
  using assms by (cases a; cases b) simp

end
