(* ===== verification/Edit.thy ===== *)
theory Edit
  imports Prelude
begin

text \<open>
  The abstract editor: a document is a list of characters, an edit inserts one character,
  deletes one or does nothing, and \<open>xform\<close> is the transformation of an edit against an
  earlier one. This is the specification that the UTF-8 text routines and the operational
  transformation of the server are proved to implement; the facts about intentions and
  convergence are proved here once, for every type of characters.
\<close>

section \<open>Edits on character lists\<close>

datatype 'c edit = Ins nat 'c | Del nat | Nop

fun apply_edit :: "'c edit \<Rightarrow> 'c list \<Rightarrow> 'c list" where
  "apply_edit (Ins p c) xs = take p xs @ c # drop p xs"
| "apply_edit (Del p) xs = take p xs @ drop (Suc p) xs"
| "apply_edit Nop xs = xs"

text \<open>An insertion past the end appends, a deletion past the end changes nothing.\<close>

lemma apply_edit_out_of_range:
  "length xs \<le> p \<Longrightarrow> apply_edit (Ins p c) xs = xs @ [c]"
  "length xs \<le> p \<Longrightarrow> apply_edit (Del p) xs = xs"
  by simp_all

lemma length_apply_edit:
  "length (apply_edit (Ins p c) xs) = Suc (length xs)"
  "p < length xs \<Longrightarrow> length (apply_edit (Del p) xs) = length xs - 1"
  by simp_all

lemma map_apply_edit:
  "map f (apply_edit e xs) = apply_edit (map_edit f e) (map f xs)"
  by (cases e) (simp_all add: take_map drop_map)

lemma set_apply_edit_Del: "set (apply_edit (Del p) xs) \<subseteq> set xs"
  by (auto dest: in_set_takeD in_set_dropD)

section \<open>Transformation\<close>

fun xform :: "'c edit \<Rightarrow> 'c edit \<Rightarrow> 'c edit" where
  "xform (Ins p c) (Ins q d) = (if q \<le> p then Ins (Suc p) c else Ins p c)"
| "xform (Del p) (Ins q d) = (if q \<le> p then Del (Suc p) else Del p)"
| "xform (Ins p c) (Del q) = (if q < p then Ins (p - 1) c else Ins p c)"
| "xform (Del p) (Del q) = (if q < p then Del (p - 1) else if q = p then Nop else Del p)"
| "xform e Nop = e"
| "xform Nop e = Nop"

lemma xform_Nop_left [simp]: "xform Nop e = Nop"
  by (cases e) simp_all

definition xform_all :: "'c edit \<Rightarrow> 'c edit list \<Rightarrow> 'c edit" where
  "xform_all e hs = foldl xform e hs"

lemma xform_all_simps [simp]:
  "xform_all e [] = e"
  "xform_all e (h # hs) = xform_all (xform e h) hs"
  "xform_all e (hs @ ks) = xform_all (xform_all e hs) ks"
  by (simp_all add: xform_all_def)

definition replay :: "'c edit list \<Rightarrow> 'c list \<Rightarrow> 'c list" where
  "replay hs xs = foldl (\<lambda>xs h. apply_edit h xs) xs hs"

lemma replay_simps [simp]:
  "replay [] xs = xs"
  "replay (h # hs) xs = replay hs (apply_edit h xs)"
  "replay (hs @ ks) xs = replay ks (replay hs xs)"
  by (simp_all add: replay_def)

section \<open>Following one character through an edit\<close>

text \<open>\<open>track e p\<close> is where the character at \<open>p\<close> stands after \<open>e\<close>, if \<open>e\<close> does not delete it.\<close>

fun track :: "'c edit \<Rightarrow> nat \<Rightarrow> nat option" where
  "track (Ins q d) p = (if q \<le> p then Some (Suc p) else Some p)"
| "track (Del q) p = (if q < p then Some (p - 1) else if q = p then None else Some p)"
| "track Nop p = Some p"

lemma track_nth:
  assumes "p < length xs" and "track e p = Some r"
  shows "r < length (apply_edit e xs) \<and> apply_edit e xs ! r = xs ! p"
proof (cases e)
  case (Ins q d)
  with assms show ?thesis
    by (cases "q \<le> p") (auto simp: nth_append nth_Cons' min_def)
next
  case (Del q)
  with assms show ?thesis
    by (cases "q < p"; cases "q = p") (auto simp: nth_append min_def)
next
  case Nop
  with assms show ?thesis by simp
qed

lemma xform_Del_track:
  "xform (Del p) e = (case track e p of None \<Rightarrow> Nop | Some r \<Rightarrow> Del r)"
  by (cases e) auto

text \<open>The same along a whole history.\<close>

fun track_all :: "'c edit list \<Rightarrow> nat \<Rightarrow> nat option" where
  "track_all [] p = Some p"
| "track_all (e # es) p = (case track e p of None \<Rightarrow> None | Some r \<Rightarrow> track_all es r)"

lemma xform_all_Nop [simp]: "xform_all Nop hs = Nop"
  by (induction hs) simp_all

lemma xform_all_Del:
  "xform_all (Del p) hs = (case track_all hs p of None \<Rightarrow> Nop | Some r \<Rightarrow> Del r)"
  by (induction hs arbitrary: p) (auto simp: xform_Del_track split: option.splits)

lemma track_all_nth:
  "p < length xs \<Longrightarrow> track_all hs p = Some r \<Longrightarrow>
    r < length (replay hs xs) \<and> replay hs xs ! r = xs ! p"
proof (induction hs arbitrary: p xs)
  case (Cons h hs)
  then obtain s where s: "track h p = Some s" "track_all hs s = Some r"
    by (auto split: option.splits)
  from track_nth [OF Cons.prems(1) s(1)]
  have "s < length (apply_edit h xs)" "apply_edit h xs ! s = xs ! p" by auto
  with Cons.IH [OF _ s(2), of "apply_edit h xs"] show ?case by simp
qed simp

text \<open>A character that \<open>track\<close> gives up is gone: with pairwise distinct characters it does not
  occur in the edited document, and no later edit of other characters brings it back.\<close>

lemma track_None_gone:
  assumes "track e p = None" and "p < length xs" and "distinct xs"
  shows "xs ! p \<notin> set (apply_edit e xs)"
proof -
  from assms(1) have e: "e = Del p"
    by (cases e) (auto split: if_splits)
  have xs: "xs = take p xs @ xs ! p # drop (Suc p) xs"
    using assms(2) by (rule id_take_nth_drop)
  with assms(3) have "distinct (take p xs @ xs ! p # drop (Suc p) xs)" by simp
  then show ?thesis unfolding e by auto
qed

section \<open>Deletions hit the character that was meant\<close>

text \<open>
  The transformed deletion, applied after the edit it was transformed against, removes the
  character the author saw at \<open>p\<close>, or nothing when that character is already gone.
\<close>

lemma xform_Del_intention:
  assumes "p < length xs"
  shows "(\<exists>r. xform (Del p) e = Del r \<and> r < length (apply_edit e xs) \<and> apply_edit e xs ! r = xs ! p)
      \<or> (xform (Del p) e = Nop \<and> e = Del p)"
proof (cases "track e p")
  case None
  then have "e = Del p" by (cases e) (auto split: if_splits)
  then show ?thesis by simp
next
  case (Some r)
  with track_nth [OF assms Some] show ?thesis by (simp add: xform_Del_track)
qed

section \<open>Insertions stay between their neighbours\<close>

text \<open>A transformed insertion keeps every character of the author's document that is still there
  on the side of the insertion where the author saw it.\<close>

lemma xform_Ins_is_Ins: "\<exists>q. xform (Ins p c) e = Ins q c"
  by (cases e) auto

lemma xform_all_Ins_is_Ins: "\<exists>q. xform_all (Ins p c) hs = Ins q c"
proof (induction hs arbitrary: p)
  case (Cons h hs)
  obtain q where "xform (Ins p c) h = Ins q c" using xform_Ins_is_Ins [of p c h] by blast
  with Cons.IH [of q] show ?case by simp
qed simp

lemma xform_Ins_side:
  "xform (Ins p c) e = Ins q c \<Longrightarrow> track e i = Some r \<Longrightarrow> (r < q) = (i < p)"
  by (cases e) (auto split: if_splits)

lemma xform_all_Ins_side:
  "xform_all (Ins p c) hs = Ins q c \<Longrightarrow> track_all hs i = Some r \<Longrightarrow> (r < q) = (i < p)"
proof (induction hs arbitrary: p i)
  case (Cons h hs)
  obtain p' where p': "xform (Ins p c) h = Ins p' c" using xform_Ins_is_Ins [of p c h] by blast
  from Cons.prems(2) obtain s where s: "track h i = Some s" "track_all hs s = Some r"
    by (auto split: option.splits)
  from Cons.IH [of p' s] Cons.prems(1) p' s xform_Ins_side [OF p' s(1)] show ?case by simp
qed simp

section \<open>The two orders of two concurrent edits\<close>

text \<open>Two edits of one document, each transformed against the other, lead to the same document,
  unless both insert at the same position (there the server's order decides).\<close>

definition same_place :: "'c edit \<Rightarrow> 'c edit \<Rightarrow> bool" where
  "same_place a b \<longleftrightarrow> (\<exists>p c d. a = Ins p c \<and> b = Ins p d)"

lemma take_drop_split:
  "q \<le> p \<Longrightarrow> take p xs = take q xs @ take (p - q) (drop q xs)"
  by (metis le_add_diff_inverse take_add)

definition in_range :: "'c edit \<Rightarrow> 'c list \<Rightarrow> bool" where
  "in_range e xs = (case e of Ins p c \<Rightarrow> p \<le> length xs | Del p \<Rightarrow> p < length xs | Nop \<Rightarrow> True)"

lemma split_two:
  assumes "p \<le> q" and "q \<le> length xs"
  obtains us vs ws where "xs = us @ vs @ ws" and "p = length us" and "q = length us + length vs"
proof
  show "xs = take p xs @ drop p (take q xs) @ drop q xs"
    using assms by (metis append.assoc append_take_drop_id min.absorb1 take_take)
qed (use assms in auto)

lemma split_three:
  assumes "p < q" and "q \<le> length xs"
  obtains us v vs ws where "xs = us @ v # vs @ ws" and "p = length us" and "q = Suc (length us + length vs)"
proof -
  obtain us vs ws where xs: "xs = us @ vs @ ws" "p = length us" "q = length us + length vs"
    using assms split_two [of p q xs] by auto
  with assms obtain v vs' where "vs = v # vs'" by (cases vs) auto
  with xs show ?thesis by (intro that) auto
qed

lemma Suc_add_diff: "Suc (n + m) - n = Suc m" "Suc (Suc (n + m)) - n = Suc (Suc m)"
  by simp_all

lemma Ins_Ins_commute:
  assumes "p < q" and "q \<le> length xs"
  shows "apply_edit (Ins (Suc q) d) (apply_edit (Ins p c) xs) = apply_edit (Ins p c) (apply_edit (Ins q d) xs)"
  by (rule split_three [OF assms]) (simp add: Suc_add_diff)

lemma Ins_Del_commute:
  assumes "p \<le> q" and "q < length xs"
  shows "apply_edit (Del (Suc q)) (apply_edit (Ins p c) xs) = apply_edit (Ins p c) (apply_edit (Del q) xs)"
  by (rule split_two [OF assms(1) less_imp_le_nat [OF assms(2)]]) (simp add: Suc_add_diff)

lemma Del_Ins_commute:
  assumes "p < q" and "q \<le> length xs"
  shows "apply_edit (Ins (q - 1) c) (apply_edit (Del p) xs) = apply_edit (Del p) (apply_edit (Ins q c) xs)"
  by (rule split_three [OF assms]) (simp add: Suc_add_diff)

lemma Del_Del_commute:
  assumes "p < q" and "q < length xs"
  shows "apply_edit (Del (q - 1)) (apply_edit (Del p) xs) = apply_edit (Del p) (apply_edit (Del q) xs)"
  by (rule split_three [OF assms(1) less_imp_le_nat [OF assms(2)]]) (simp add: Suc_add_diff)

lemmas edit_commutes = Ins_Ins_commute Ins_Del_commute Del_Ins_commute Del_Del_commute
  Del_Ins_commute [unfolded One_nat_def] Del_Del_commute [unfolded One_nat_def]

theorem xform_convergence:
  assumes "in_range a xs" and "in_range b xs" and "\<not> same_place a b"
  shows "apply_edit (xform b a) (apply_edit a xs) = apply_edit (xform a b) (apply_edit b xs)"
proof (cases a)
  case a: (Ins p c)
  show ?thesis
  proof (cases b)
    case (Ins q d)
    with a assms show ?thesis
      by (cases p q rule: linorder_cases)
        (auto simp del: apply_edit.simps simp: in_range_def same_place_def edit_commutes)
  next
    case (Del q)
    with a assms show ?thesis
      by (cases p q rule: linorder_cases)
        (auto simp del: apply_edit.simps simp: in_range_def edit_commutes)
  qed simp
next
  case a: (Del p)
  show ?thesis
  proof (cases b)
    case (Ins q d)
    with a assms show ?thesis
      by (cases p q rule: linorder_cases)
        (auto simp del: apply_edit.simps simp: in_range_def edit_commutes)
  next
    case (Del q)
    with a assms show ?thesis
      by (cases p q rule: linorder_cases)
        (auto simp del: apply_edit.simps simp: in_range_def edit_commutes)
  qed simp
qed simp

section \<open>Texts that implement the editor\<close>

text \<open>
  The contract between the text routines and their two users, the server's document and the
  client's replica: counting gives the number of characters, applying an operation to a valid
  text is defined, keeps it valid and performs the operation's edit, and a valid text is
  determined by its characters.
\<close>

locale text_model =
  fixes chars :: "'t \<Rightarrow> 'c list"
    and valid :: "'t \<Rightarrow> bool"
    and count :: "'t \<Rightarrow> nat"
    and apply_op :: "'o \<Rightarrow> 't \<Rightarrow> 't option"
    and edit :: "'o \<Rightarrow> 'c edit"
    and ok :: "'o \<Rightarrow> bool"
  assumes count_chars: "valid t \<Longrightarrow> count t = length (chars t)"
    and apply_chars: "valid t \<Longrightarrow> ok p \<Longrightarrow>
      \<exists>t'. apply_op p t = Some t' \<and> valid t' \<and> chars t' = apply_edit (edit p) (chars t)"
    and chars_inj: "valid s \<Longrightarrow> valid t \<Longrightarrow> chars s = chars t \<Longrightarrow> s = t"
begin

lemma apply_SomeD:
  "valid t \<Longrightarrow> ok p \<Longrightarrow> apply_op p t = Some t' \<Longrightarrow>
    valid t' \<and> chars t' = apply_edit (edit p) (chars t)"
  using apply_chars [of t p] by auto

theorem replay_ops:
  assumes "valid t" and "list_all ok ps"
  shows "\<exists>t'. run_ops apply_op ps t = Some t' \<and> valid t' \<and> chars t' = replay (map edit ps) (chars t)"
  using assms
proof (induction ps arbitrary: t)
  case (Cons p ps)
  then obtain t1 where t1: "apply_op p t = Some t1" "valid t1"
    "chars t1 = apply_edit (edit p) (chars t)"
    using apply_chars [of t p] by auto
  with Cons.IH [of t1] Cons.prems show ?case by auto
qed simp

text \<open>An edit is all that matters of an operation: operations with the same edit have the same
  effect on a valid text.\<close>

lemma apply_edit_eq:
  assumes "valid t" and "ok p" and "ok q" and "edit p = edit q"
  shows "apply_op p t = apply_op q t"
  using apply_chars [OF assms(1,2)] apply_chars [OF assms(1,3)] assms(4)
  by (metis chars_inj)

lemma apply_Nop: "valid t \<Longrightarrow> ok p \<Longrightarrow> edit p = Nop \<Longrightarrow> apply_op p t = Some t"
  using apply_chars [of t p] chars_inj by fastforce

end

end
