(* ===== verification/Utf8.thy ===== *)
theory Utf8
  imports Operation Edit
begin

text \<open>
  The UTF-8 routines of \<open>util.c\<close> (character count, length of a character, byte offset of a
  character position) and \<open>ts_apply_operation_to_text\<close>, byte by byte as the code computes
  them. \<open>ts_utf8_byte_offset\<close> trusts lead bytes, so on malformed text it can step over the
  terminator; reading there is undefined behaviour, the value \<^term>\<open>None\<close>. On text made of
  whole characters the routines implement the abstract editor of theory \<open>Edit\<close>.
\<close>

section \<open>Characters and positions\<close>

definition byte_val :: "char \<Rightarrow> 8 word" where
  "byte_val c = of_char c"

definition is_utf8_continuation :: "char \<Rightarrow> bool" where
  "is_utf8_continuation value \<longleftrightarrow> byte_val value AND 0xC0 = 0x80"

fun utf8_count_loop :: "string \<Rightarrow> nat \<Rightarrow> nat" where
  "utf8_count_loop [] count = count"
| "utf8_count_loop (c # text) count =
     utf8_count_loop text (if \<not> is_utf8_continuation c then count + 1 else count)"

definition ts_utf8_char_count :: "string option \<Rightarrow> nat" where
  "ts_utf8_char_count text = (case text of None \<Rightarrow> 0 | Some t \<Rightarrow> utf8_count_loop t 0)"

definition ts_utf8_char_bytes :: "string option \<Rightarrow> nat" where
  "ts_utf8_char_bytes text =
     (case text of
        None \<Rightarrow> 0
      | Some [] \<Rightarrow> 0
      | Some (c # _) \<Rightarrow>
          (let first = byte_val c in
           if first < 0x80 then 1
           else if first AND 0xE0 = 0xC0 then 2
           else if first AND 0xF0 = 0xE0 then 3
           else if first AND 0xF8 = 0xF0 then 4
           else 1))"

lemma ts_utf8_char_bytes_bounds:
  "ts_utf8_char_bytes (Some (c # t)) \<noteq> 0" "ts_utf8_char_bytes (Some t) \<le> 4"
  by (auto simp: ts_utf8_char_bytes_def Let_def split: list.splits)

lemma ts_utf8_char_bytes_0 [simp]: "ts_utf8_char_bytes (Some t) = 0 \<longleftrightarrow> t = []"
proof (cases t)
  case (Cons c u)
  then show ?thesis using ts_utf8_char_bytes_bounds(1) [of c u] by simp
qed (simp add: ts_utf8_char_bytes_def)

lemma ts_utf8_char_bytes_pos: "t \<noteq> [] \<Longrightarrow> 0 < ts_utf8_char_bytes (Some t)"
  using ts_utf8_char_bytes_0 [of t] by linarith

lemma ts_utf8_char_bytes_cong: "ts_utf8_char_bytes (Some (c # s)) = ts_utf8_char_bytes (Some (c # t))"
  by (simp add: ts_utf8_char_bytes_def)

text \<open>The loop of \<open>ts_utf8_byte_offset\<close>: reading \<open>text[i]\<close> past the terminator is undefined.\<close>

function utf8_offset_loop :: "string \<Rightarrow> nat \<Rightarrow> nat \<Rightarrow> nat \<Rightarrow> nat ub" where
  "utf8_offset_loop text char_pos chars i =
     (if length text < i then None
      else if i = length text then Some i
      else if chars = char_pos then Some i
      else let bytes = ts_utf8_char_bytes (Some (drop i text)) in
        if bytes = 0 then Some i
        else utf8_offset_loop text char_pos (chars + 1) (i + bytes))"
  by pat_completeness auto
termination
proof (relation "measure (\<lambda>(text, char_pos, chars, i). Suc (length text) - i)", goal_cases)
  case (2 s char_pos chars i bytes)
  then have "0 < ts_utf8_char_bytes (Some (drop i s))" "i < length s"
    by (simp_all del: ts_utf8_char_bytes_0)
  with 2(4) show ?case by simp
qed simp

declare utf8_offset_loop.simps [simp del]

definition ts_utf8_byte_offset :: "string option \<Rightarrow> nat \<Rightarrow> nat ub" where
  "ts_utf8_byte_offset text char_pos =
     (case text of None \<Rightarrow> Some 0 | Some t \<Rightarrow> utf8_offset_loop t char_pos 0 0)"

section \<open>Applying an operation\<close>

definition ts_apply_operation_to_text :: "string option \<Rightarrow> TsOperation option \<Rightarrow> string ub" where
  "ts_apply_operation_to_text text op =
     (let source = (case text of Some t \<Rightarrow> t | None \<Rightarrow> []);
          source_chars = ts_utf8_char_count (Some source) in
      case op of
        None \<Rightarrow> Some (ts_strdup (Some source))
      | Some op \<Rightarrow>
          if op_kind op = TS_OP_NOOP then Some (ts_strdup (Some source))
          else if op_kind op = TS_OP_INSERT then
            (let pos = (if op_pos op > source_chars then source_chars else op_pos op) in do {
               byte_pos \<leftarrow> ts_utf8_byte_offset (Some source) pos;
               Some (take byte_pos source @ op_ch op @ drop byte_pos source)
             })
          else if op_kind op = TS_OP_DELETE then
            (if op_pos op \<ge> source_chars then Some (ts_strdup (Some source))
             else do {
               byte_pos \<leftarrow> ts_utf8_byte_offset (Some source) (op_pos op);
               next_byte \<leftarrow> ts_utf8_byte_offset (Some source) (op_pos op + 1);
               Some (take byte_pos source @ drop next_byte source)
             })
          else Some (ts_strdup (Some source)))"

section \<open>Whole characters\<close>

text \<open>A character as the code sees it: a lead byte that is no continuation byte, followed by as
  many continuation bytes as the lead byte announces.\<close>

definition utf8_char :: "string \<Rightarrow> bool" where
  "utf8_char u \<longleftrightarrow>
     u \<noteq> [] \<and> \<not> is_utf8_continuation (hd u) \<and> list_all is_utf8_continuation (tl u) \<and>
     length u = ts_utf8_char_bytes (Some u) \<and> is_cstr u"

function utf8_chars :: "string \<Rightarrow> string list" where
  "utf8_chars t =
     (if t = [] then []
      else take (ts_utf8_char_bytes (Some t)) t # utf8_chars (drop (ts_utf8_char_bytes (Some t)) t))"
  by pat_completeness auto
termination
proof (relation "measure length", goal_cases)
  case (2 t)
  then have "0 < ts_utf8_char_bytes (Some t)" by (simp add: ts_utf8_char_bytes_pos)
  with 2 show ?case by simp
qed simp

declare utf8_chars.simps [simp del]

definition valid_utf8 :: "string \<Rightarrow> bool" where
  "valid_utf8 t \<longleftrightarrow> list_all utf8_char (utf8_chars t)"

lemma utf8_chars_Nil [simp]: "utf8_chars [] = []"
  by (simp add: utf8_chars.simps)

lemma concat_utf8_chars [simp]: "concat (utf8_chars t) = t"
proof (induction t rule: utf8_chars.induct)
  case (1 t)
  then show ?case
    by (cases "t = []") (simp_all add: utf8_chars.simps [of t])
qed

lemma char_bytes_append: "u \<noteq> [] \<Longrightarrow> ts_utf8_char_bytes (Some (u @ t)) = ts_utf8_char_bytes (Some u)"
  by (cases u) (simp_all add: ts_utf8_char_bytes_def)

lemma utf8_char_bytes_append:
  "utf8_char u \<Longrightarrow> ts_utf8_char_bytes (Some (u @ t)) = length u"
  by (simp add: utf8_char_def char_bytes_append)

lemma utf8_chars_append:
  "utf8_char u \<Longrightarrow> utf8_chars (u @ t) = u # utf8_chars t"
  by (subst utf8_chars.simps) (auto simp: utf8_char_bytes_append utf8_char_def)

lemma utf8_chars_concat:
  "list_all utf8_char us \<Longrightarrow> utf8_chars (concat us) = us"
  by (induction us) (simp_all add: utf8_chars_append)

lemma valid_utf8_concat [ts_wf]: "list_all utf8_char us \<Longrightarrow> valid_utf8 (concat us)"
  by (simp add: valid_utf8_def utf8_chars_concat)

lemma valid_utf8_Nil [simp, ts_wf]: "valid_utf8 []"
  by (simp add: valid_utf8_def)

lemma valid_utf8E:
  assumes "valid_utf8 t"
  obtains us where "list_all utf8_char us" and "t = concat us" and "utf8_chars t = us"
  using assms by (intro that [of "utf8_chars t"]) (simp_all add: valid_utf8_def)

lemma is_cstr_concat: "list_all is_cstr us \<Longrightarrow> is_cstr (concat us)"
  by (induction us) simp_all

lemma valid_utf8_is_cstr: "valid_utf8 t \<Longrightarrow> is_cstr t"
  by (erule valid_utf8E) (auto intro!: is_cstr_concat simp: utf8_char_def list_all_iff)

text \<open>ASCII bytes are characters of their own.\<close>

definition is_ascii :: "char \<Rightarrow> bool" where
  "is_ascii c \<longleftrightarrow> byte_val c < 0x80 \<and> c \<noteq> CHR 0x00"

lemma ascii_no_continuation: "byte_val c < 0x80 \<Longrightarrow> \<not> is_utf8_continuation c"
proof
  assume less: "byte_val c < 0x80" and "is_utf8_continuation c"
  then have "byte_val c AND 0xC0 = 0x80" by (simp add: is_utf8_continuation_def)
  moreover have "byte_val c AND 0xC0 \<le> byte_val c" by (rule word_and_le2)
  ultimately show False using less by simp
qed

lemma utf8_char_ascii: "is_ascii c \<Longrightarrow> utf8_char [c]"
  by (simp add: utf8_char_def is_ascii_def ascii_no_continuation ts_utf8_char_bytes_def)

lemma utf8_chars_ascii: "list_all is_ascii t \<Longrightarrow> utf8_chars t = map (\<lambda>c. [c]) t"
  using utf8_chars_concat [of "map (\<lambda>c. [c]) t"] by (simp add: list_all_iff utf8_char_ascii)

lemma valid_utf8_ascii: "list_all is_ascii t \<Longrightarrow> valid_utf8 t"
  by (simp add: valid_utf8_def utf8_chars_ascii list_all_iff utf8_char_ascii)

section \<open>Counting and finding characters\<close>

lemma utf8_count_loop_add: "utf8_count_loop t n = n + utf8_count_loop t 0"
proof (induction t arbitrary: n)
  case (Cons c t)
  show ?case
    using Cons [of "Suc n"] Cons [of n] Cons [of 1] by simp
qed simp

lemma char_count_simps [simp]:
  "ts_utf8_char_count None = 0"
  "ts_utf8_char_count (Some []) = 0"
  "ts_utf8_char_count (Some (c # t)) =
     (if is_utf8_continuation c then 0 else 1) + ts_utf8_char_count (Some t)"
  using utf8_count_loop_add [of t 1] by (simp_all add: ts_utf8_char_count_def)

lemma char_count_append [simp]:
  "ts_utf8_char_count (Some (s @ t)) = ts_utf8_char_count (Some s) + ts_utf8_char_count (Some t)"
  by (induction s) simp_all

lemma char_count_filter:
  "ts_utf8_char_count (Some t) = length (filter (\<lambda>c. \<not> is_utf8_continuation c) t)"
  by (induction t) simp_all

lemma char_count_continuations:
  "list_all is_utf8_continuation t \<Longrightarrow> ts_utf8_char_count (Some t) = 0"
  by (induction t) simp_all

lemma char_count_char: "utf8_char u \<Longrightarrow> ts_utf8_char_count (Some u) = 1"
  by (cases u) (simp_all add: utf8_char_def char_count_continuations)

lemma char_count_concat:
  "list_all utf8_char us \<Longrightarrow> ts_utf8_char_count (Some (concat us)) = length us"
  by (induction us) (simp_all add: char_count_char)

lemma offset_loop_concat:
  "list_all utf8_char us \<Longrightarrow> chars \<le> char_pos \<Longrightarrow>
    utf8_offset_loop (pre @ concat us) char_pos chars (length pre) =
      Some (length pre + length (concat (take (char_pos - chars) us)))"
proof (induction us arbitrary: chars pre)
  case Nil
  then show ?case by (simp add: utf8_offset_loop.simps)
next
  case (Cons u us)
  then have u: "utf8_char u" "u \<noteq> []" by (simp_all add: utf8_char_def)
  show ?case
  proof (cases "chars = char_pos")
    case True
    with u show ?thesis by (simp add: utf8_offset_loop.simps)
  next
    case False
    have "utf8_offset_loop (pre @ concat (u # us)) char_pos chars (length pre) =
        utf8_offset_loop ((pre @ u) @ concat us) char_pos (chars + 1) (length (pre @ u))"
      using False u by (subst utf8_offset_loop.simps) (simp add: utf8_char_bytes_append Let_def)
    also have "\<dots> = Some (length (pre @ u) + length (concat (take (char_pos - (chars + 1)) us)))"
      using Cons.prems False by (intro Cons.IH) simp_all
    finally have "utf8_offset_loop (pre @ concat (u # us)) char_pos chars (length pre) = \<dots>" .
    moreover have "char_pos - chars = Suc (char_pos - (chars + 1))"
      using Cons.prems False by simp
    ultimately show ?thesis by simp
  qed
qed

lemma byte_offset_concat:
  "list_all utf8_char us \<Longrightarrow>
    ts_utf8_byte_offset (Some (concat us)) n = Some (length (concat (take n us)))"
  using offset_loop_concat [of us 0 n "[]"] by (simp add: ts_utf8_byte_offset_def)

lemma take_concat_chars [simp]:
  "take (length (concat (take n us))) (concat us) = concat (take n us)"
  by (metis append_eq_conv_conj append_take_drop_id concat_append)

lemma drop_concat_chars [simp]:
  "drop (length (concat (take n us))) (concat us) = concat (drop n us)"
  by (metis append_eq_conv_conj append_take_drop_id concat_append)

section \<open>The text routines implement the abstract editor\<close>

definition edit_of :: "TsOperation \<Rightarrow> string edit" where
  "edit_of op =
     (case op_kind op of
        TS_OP_INSERT \<Rightarrow> Ins (op_pos op) (op_ch op)
      | TS_OP_DELETE \<Rightarrow> Del (op_pos op)
      | _ \<Rightarrow> Nop)"

text \<open>What an insertion must carry for the text to stay made of whole characters.\<close>

definition good_op :: "TsOperation \<Rightarrow> bool" where
  "good_op op \<longleftrightarrow> (op_kind op = TS_OP_INSERT \<longrightarrow> utf8_char (op_ch op))"

lemma edit_of_simps [simp]:
  "op_kind op = TS_OP_INSERT \<Longrightarrow> edit_of op = Ins (op_pos op) (op_ch op)"
  "op_kind op = TS_OP_DELETE \<Longrightarrow> edit_of op = Del (op_pos op)"
  "op_kind op = TS_OP_NOOP \<Longrightarrow> edit_of op = Nop"
  "op_kind op = TS_OP_INVALID \<Longrightarrow> edit_of op = Nop"
  by (simp_all add: edit_of_def)

lemma apply_to_chars:
  assumes us: "list_all utf8_char us" and op: "good_op op"
  shows "ts_apply_operation_to_text (Some (concat us)) (Some op) =
      Some (concat (apply_edit (edit_of op) us))
    \<and> list_all utf8_char (apply_edit (edit_of op) us)"
proof (cases "op_kind op")
  case TS_OP_INSERT
  with us op show ?thesis
    by (auto simp: ts_apply_operation_to_text_def Let_def char_count_concat byte_offset_concat
        good_op_def list_all_iff dest: in_set_takeD in_set_dropD)
next
  case TS_OP_DELETE
  with us show ?thesis
    by (auto simp: ts_apply_operation_to_text_def Let_def char_count_concat byte_offset_concat
        list_all_iff
        dest: in_set_takeD in_set_dropD)
qed (simp_all add: ts_apply_operation_to_text_def us)

interpretation utf8: text_model utf8_chars valid_utf8 "\<lambda>t. ts_utf8_char_count (Some t)"
  "\<lambda>op t. ts_apply_operation_to_text (Some t) (Some op)" edit_of good_op
proof unfold_locales
  fix t assume "valid_utf8 t"
  then show "ts_utf8_char_count (Some t) = length (utf8_chars t)"
    by (metis char_count_concat valid_utf8E)
next
  fix t p assume "valid_utf8 t" "good_op p"
  then show "\<exists>t'. ts_apply_operation_to_text (Some t) (Some p) = Some t' \<and> valid_utf8 t' \<and>
      utf8_chars t' = apply_edit (edit_of p) (utf8_chars t)"
    by (metis apply_to_chars utf8_chars_concat valid_utf8E valid_utf8_concat)
next
  fix s t assume "valid_utf8 s" "valid_utf8 t" "utf8_chars s = utf8_chars t"
  then show "s = t" by (metis concat_utf8_chars)
qed

lemmas text_facts = utf8.count_chars utf8.apply_SomeD utf8.apply_Nop

end
