(* ===== verification/Transform.thy ===== *)
theory Transform
  imports Utf8
begin

text \<open>
  \<open>ts_transform_against\<close> of \<open>document.c\<close> and its refinement of the abstract transformation
  \<open>xform\<close> of theory \<open>Edit\<close>. Positions are \<open>size_t\<close>: the increment wraps at \<open>2 ^ 64\<close>.
\<close>

definition ts_transform_against :: "TsOperation \<Rightarrow> TsOperation \<Rightarrow> TsOperation" where
  "ts_transform_against op previous =
     (let result = ts_operation_clone op in
      if op_kind result = TS_OP_NOOP \<or> op_kind previous = TS_OP_NOOP then result
      else if op_kind previous = TS_OP_INSERT then
        (if (op_kind result = TS_OP_INSERT \<or> op_kind result = TS_OP_DELETE) \<and>
            op_pos previous \<le> op_pos result
         then result\<lparr>op_pos := size_inc (op_pos result)\<rparr> else result)
      else if op_kind previous = TS_OP_DELETE then
        (if op_kind result = TS_OP_INSERT \<and> op_pos previous < op_pos result
         then result\<lparr>op_pos := op_pos result - 1\<rparr>
         else if op_kind result = TS_OP_DELETE then
           (if op_pos previous < op_pos result then result\<lparr>op_pos := op_pos result - 1\<rparr>
            else if op_pos previous = op_pos result
            then ts_operation_noop (Some result) (Some ''same character already deleted'')
            else result)
         else result)
      else result)"

text \<open>The kind stays or becomes a no-op, the inserted character stays.\<close>

lemma transform_kind:
  "op_kind (ts_transform_against op h) = op_kind op \<or>
    op_kind op = TS_OP_DELETE \<and> op_kind (ts_transform_against op h) = TS_OP_NOOP"
  by (auto simp: ts_transform_against_def Let_def)

lemma transform_insert [simp]:
  "op_kind op = TS_OP_INSERT \<Longrightarrow>
    op_kind (ts_transform_against op h) = TS_OP_INSERT \<and> op_ch (ts_transform_against op h) = op_ch op"
  by (auto simp: ts_transform_against_def Let_def)

lemma transform_noop [simp]:
  "op_kind op = TS_OP_NOOP \<Longrightarrow> ts_transform_against op h = op"
  by (auto simp: ts_transform_against_def Let_def)

lemma transform_good [ts_wf]: "good_op op \<Longrightarrow> good_op (ts_transform_against op h)"
  using transform_kind [of op h] by (cases "op_kind op") (auto simp: good_op_def)

lemma transform_wf [ts_wf]: "wf_operation op \<Longrightarrow> wf_operation (ts_transform_against op h)"
proof -
  assume wf: "wf_operation op"
  then have "wf_operation (ts_operation_noop (Some op) (Some ''same character already deleted''))"
    by (intro wf_operation_noop) (auto simp: is_cstr_def)
  moreover from wf have "wf_operation (op\<lparr>op_pos := size_inc (op_pos op)\<rparr>)"
    by (simp add: wf_operation_def size_inc_def)
  moreover from wf have "wf_operation (op\<lparr>op_pos := op_pos op - 1\<rparr>)"
    by (auto simp: wf_operation_def)
  ultimately show ?thesis using wf by (simp add: ts_transform_against_def Let_def)
qed

lemma transform_pos: "Suc (op_pos op) < 18446744073709551616 \<Longrightarrow>
    op_pos (ts_transform_against op h) \<le> Suc (op_pos op)"
  by (auto simp: ts_transform_against_def Let_def size_inc_Suc)

text \<open>Where the position does not wrap, the code computes the abstract transformation.\<close>

lemma edit_of_transform:
  assumes "Suc (op_pos op) < 18446744073709551616"
  shows "edit_of (ts_transform_against op h) = xform (edit_of op) (edit_of h)"
  using assms
  by (cases "op_kind op"; cases "op_kind h")
    (auto simp: ts_transform_against_def Let_def size_inc_Suc)

text \<open>The fold over a history.\<close>

definition transform_all :: "TsOperation \<Rightarrow> TsOperation list \<Rightarrow> TsOperation" where
  "transform_all op hs = foldl ts_transform_against op hs"

lemma transform_all_simps [simp]:
  "transform_all op [] = op"
  "transform_all op (h # hs) = transform_all (ts_transform_against op h) hs"
  by (simp_all add: transform_all_def)

lemma transform_all_wf [ts_wf]:
  "wf_operation op \<Longrightarrow> wf_operation (transform_all op hs)"
  by (induction hs arbitrary: op) (auto intro: transform_wf)

lemma transform_all_good [ts_wf]:
  "good_op op \<Longrightarrow> good_op (transform_all op hs)"
  by (induction hs arbitrary: op) (auto intro: transform_good)

lemma transform_all_valid_kind:
  "op_kind op \<noteq> TS_OP_INVALID \<Longrightarrow> op_kind (transform_all op hs) \<noteq> TS_OP_INVALID"
proof (induction hs arbitrary: op)
  case (Cons h hs)
  from Cons.prems have "op_kind (ts_transform_against op h) \<noteq> TS_OP_INVALID"
    using transform_kind [of op h] by auto
  from Cons.IH [OF this] show ?case by simp
qed simp

lemma edit_of_transform_all:
  "op_pos op + length hs < 18446744073709551616 \<Longrightarrow>
    edit_of (transform_all op hs) = xform_all (edit_of op) (map edit_of hs)"
proof (induction hs arbitrary: op)
  case (Cons h hs)
  then have "op_pos (ts_transform_against op h) \<le> Suc (op_pos op)"
    by (intro transform_pos) simp
  with Cons.prems have "op_pos (ts_transform_against op h) + length hs < 18446744073709551616"
    by simp
  from Cons.IH [OF this] Cons.prems show ?case by (simp add: edit_of_transform)
qed simp

section \<open>Concurrent operations converge\<close>

text \<open>C18: Two concurrent operations on one text, applied in either order with the later one
  transformed against the earlier, give the same text, unless both insert at the same position
  (where the order of the server decides).\<close>

theorem concurrent_operations_converge:
  assumes "valid_utf8 t" and a: "good_op a" "in_range (edit_of a) (utf8_chars t)"
    and b: "good_op b" "in_range (edit_of b) (utf8_chars t)"
    and "\<not> same_place (edit_of a) (edit_of b)"
    and fits: "Suc (op_pos a) < 18446744073709551616" "Suc (op_pos b) < 18446744073709551616"
  shows "\<exists>ta tb t'. ts_apply_operation_to_text (Some t) (Some a) = Some ta \<and>
    ts_apply_operation_to_text (Some t) (Some b) = Some tb \<and>
    ts_apply_operation_to_text (Some ta) (Some (ts_transform_against b a)) = Some t' \<and>
    ts_apply_operation_to_text (Some tb) (Some (ts_transform_against a b)) = Some t'"
proof -
  obtain ta where ta: "ts_apply_operation_to_text (Some t) (Some a) = Some ta" "valid_utf8 ta"
    "utf8_chars ta = apply_edit (edit_of a) (utf8_chars t)"
    using utf8.apply_chars [OF assms(1) a(1)] by blast
  obtain tb where tb: "ts_apply_operation_to_text (Some t) (Some b) = Some tb" "valid_utf8 tb"
    "utf8_chars tb = apply_edit (edit_of b) (utf8_chars t)"
    using utf8.apply_chars [OF assms(1) b(1)] by blast
  obtain u where u: "ts_apply_operation_to_text (Some ta) (Some (ts_transform_against b a)) = Some u"
    "valid_utf8 u" "utf8_chars u = apply_edit (xform (edit_of b) (edit_of a)) (utf8_chars ta)"
    using utf8.apply_chars [OF ta(2) transform_good [OF b(1), of a]] fits
    by (auto simp: edit_of_transform)
  obtain v where v: "ts_apply_operation_to_text (Some tb) (Some (ts_transform_against a b)) = Some v"
    "valid_utf8 v" "utf8_chars v = apply_edit (xform (edit_of a) (edit_of b)) (utf8_chars tb)"
    using utf8.apply_chars [OF tb(2) transform_good [OF a(1), of b]] fits
    by (auto simp: edit_of_transform)
  have "utf8_chars u = utf8_chars v"
    using xform_convergence [OF a(2) b(2) assms(6)] ta(3) tb(3) u(3) v(3) by simp
  then have "u = v" by (metis concat_utf8_chars)
  with ta tb u v show ?thesis by blast
qed

theorem concurrent_operations_converge_witness:
  "\<exists>ta tb t'. ts_apply_operation_to_text (Some ''ab'') (Some (ts_operation_init TS_OP_INSERT 0 (Some ''x''))) = Some ta \<and>
    ts_apply_operation_to_text (Some ''ab'') (Some (ts_operation_init TS_OP_DELETE 0 None)) = Some tb \<and>
    ts_apply_operation_to_text (Some ta) (Some (ts_transform_against
      (ts_operation_init TS_OP_DELETE 0 None) (ts_operation_init TS_OP_INSERT 0 (Some ''x'')))) = Some t' \<and>
    ts_apply_operation_to_text (Some tb) (Some (ts_transform_against
      (ts_operation_init TS_OP_INSERT 0 (Some ''x'')) (ts_operation_init TS_OP_DELETE 0 None))) = Some t'"
proof -
  have ascii: "list_all is_ascii ''ab''" "is_ascii CHR ''x''"
    by (simp_all add: is_ascii_def byte_val_def)
  show ?thesis
    by (rule concurrent_operations_converge)
      (simp_all add: valid_utf8_ascii [OF ascii(1)] utf8_chars_ascii [OF ascii(1)] good_op_def
        utf8_char_ascii [OF ascii(2)] ts_operation_init_eq in_range_def same_place_def)
qed

end
