(* ===== verification/Document.thy ===== *)
theory Document
  imports Message Transform
begin

text \<open>
  The server's authoritative document, \<open>document.c\<close>: the structures \<open>TsHistoryEntry\<close>,
  \<open>TsDocument\<close> and \<open>TsProcessResult\<close>, snapshots, the normalisation of an operation before it
  is applied, the bounded history, the JSON log line and \<open>ts_document_process_operation\<close>. The
  array \<open>history\<close> with its \<open>history_count\<close> is the list of the live entries. Every function of
  this file that the code runs under the document's lock is one step on the state.
\<close>

section \<open>State\<close>

record TsHistoryEntry =
  he_server_version :: int
  he_client_id :: string
  he_op_id :: string
  he_base_version :: int
  he_original_op :: TsOperation
  he_op :: TsOperation

record TsDocument =
  doc_text :: string
  doc_version :: int
  doc_history_start_version :: int
  doc_history_limit :: nat
  doc_history :: "TsHistoryEntry list"

definition doc_history_count :: "TsDocument \<Rightarrow> nat" where
  "doc_history_count doc = length (doc_history doc)"

datatype TsProcessStatus = TS_PROCESS_OK | TS_PROCESS_ERROR | TS_PROCESS_RESYNC

record TsProcessResult =
  res_status :: TsProcessStatus
  res_messages :: "TsMessage list"
  res_message_count :: nat
  res_ack :: TsMessage
  res_remote :: TsMessage
  res_has_ack :: bool
  res_has_remote :: bool
  res_snapshot_content :: "string option"
  res_snapshot_version :: int
  res_log_json :: string

section \<open>Results and snapshots\<close>

definition set_message_error :: "string option \<Rightarrow> string \<Rightarrow> TsMessage" where
  "set_message_error op_id txt =
     ts_message_init\<lparr>
       msg_type := snprintf_buf TS_MAX_TYPE ''ERROR'',
       msg_op_id := snprintf_buf TS_MAX_OP_ID (case op_id of Some s \<Rightarrow> s | None \<Rightarrow> []),
       msg_message := snprintf_buf TS_MAX_STATUS txt\<rparr>"

definition ts_process_result_init :: TsProcessResult where
  "ts_process_result_init =
     \<lparr>res_status = TS_PROCESS_OK, res_messages = [ts_message_init, ts_message_init],
      res_message_count = 0, res_ack = ts_message_init, res_remote = ts_message_init,
      res_has_ack = False, res_has_remote = False, res_snapshot_content = None,
      res_snapshot_version = 0, res_log_json = []\<rparr>"

definition ts_process_result_free :: "TsProcessResult option \<Rightarrow> TsProcessResult option" where
  "ts_process_result_free result =
     map_option
       (\<lambda>r. r\<lparr>
          res_messages :=
            map (\<lambda>(i, m). if i < res_message_count r \<and> i < 2 then the (ts_message_free (Some m)) else m)
              (enumerate 0 (res_messages r)),
          res_ack := the (ts_message_free (Some (res_ack r))),
          res_remote := the (ts_message_free (Some (res_remote r))),
          res_snapshot_content := None\<rparr>)
       result"

definition ts_document_init :: "string option \<Rightarrow> nat \<Rightarrow> TsDocument" where
  "ts_document_init initial_text history_limit =
     \<lparr>doc_text = ts_strdup (Some (case initial_text of Some t \<Rightarrow> t | None \<Rightarrow> [])),
      doc_version = 0, doc_history_start_version = 0,
      doc_history_limit = (if history_limit = 0 then 1000 else history_limit),
      doc_history = []\<rparr>"

definition ts_document_content :: "TsDocument \<Rightarrow> string" where
  "ts_document_content doc = ts_strdup (Some (doc_text doc))"

definition ts_document_snapshot :: "TsDocument \<Rightarrow> TsMessage" where
  "ts_document_snapshot doc =
     ts_message_init\<lparr>
       msg_type := snprintf_buf TS_MAX_TYPE ''DOC_STATE'',
       msg_version := doc_version doc,
       msg_history_start_version := doc_history_start_version doc,
       msg_content := Some (ts_strdup (Some (doc_text doc)))\<rparr>"

section \<open>Normalisation and history\<close>

definition normalize_for_apply :: "TsDocument \<Rightarrow> TsOperation \<Rightarrow> TsOperation" where
  "normalize_for_apply doc op =
     (let text_len = ts_utf8_char_count (Some (doc_text doc)) in
      if op_kind op = TS_OP_NOOP then ts_operation_clone op
      else if op_kind op = TS_OP_INSERT then
        (let result = ts_operation_clone op in
         if op_pos result > text_len then result\<lparr>op_pos := text_len\<rparr> else result)
      else if op_kind op = TS_OP_DELETE then
        (if op_pos op < text_len then ts_operation_clone op
         else ts_operation_noop (Some op) (Some ''delete position out of range''))
      else ts_operation_noop (Some op) (Some ''invalid operation''))"

definition append_history :: "TsDocument \<Rightarrow> TsHistoryEntry \<Rightarrow> TsDocument" where
  "append_history doc entry =
     (let kept = (if doc_history_count doc = doc_history_limit doc
                  then tl (doc_history doc) else doc_history doc);
          history = kept @ [entry];
          start = (case history of
                     [] \<Rightarrow> doc_version doc
                   | oldest # _ \<Rightarrow>
                       (let v = he_server_version oldest - 1 in if v < 0 then 0 else v)) in
      doc\<lparr>doc_history := history, doc_history_start_version := start\<rparr>)"

section \<open>The operation log\<close>

definition log_operation :: "TsOperation \<Rightarrow> string" where
  \<comment> \<open>the \<open>{"kind":..,"pos":..}\<close> objects of the format string\<close>
  \<open>log_operation op =
     ''{"kind":"'' @ ts_operation_kind_name (op_kind op) @ ''","pos":'' @ show_nat (op_pos op) @
     (if op_kind op = TS_OP_INSERT then '',"char":"'' else []) @
     (if op_kind op = TS_OP_INSERT then op_ch op else []) @
     (if op_kind op = TS_OP_INSERT then ''"'' else []) @ ''}''\<close>

definition build_operation_log ::
  "nat \<Rightarrow> int \<Rightarrow> string \<Rightarrow> string \<Rightarrow> int \<Rightarrow> TsOperation \<Rightarrow> TsOperation \<Rightarrow> nat \<Rightarrow> string" where
  \<open>build_operation_log out_size server_version client_id op_id base_version original transformed
     content_length =
     snprintf_buf out_size
       (''{"event":"operation","server_version":'' @ show_int server_version @
        '',"client_id":"'' @ client_id @ ''","op_id":"'' @ op_id @
        ''","base_version":'' @ show_int base_version @
        '',"original_op":'' @ log_operation original @
        '',"transformed_op":'' @ log_operation transformed @
        '',"content_length":'' @ show_nat content_length @ ''}'')\<close>

section \<open>Processing an operation\<close>

text \<open>The two early returns before the lock.\<close>

definition process_error :: "string \<Rightarrow> string \<Rightarrow> TsProcessResult" where
  "process_error op_id txt =
     (let result = ts_process_result_init in
      result\<lparr>res_status := TS_PROCESS_ERROR, res_message_count := 1,
        res_messages := (res_messages result)[0 := set_message_error (Some op_id) txt]\<rparr>)"

text \<open>The early return that asks the client to resynchronise.\<close>

definition process_resync :: "TsDocument \<Rightarrow> string \<Rightarrow> int \<Rightarrow> TsProcessResult" where
  "process_resync doc op_id base_version =
     ts_process_result_init\<lparr>
       res_status := TS_PROCESS_RESYNC, res_message_count := 2,
       res_messages :=
         [ts_message_init\<lparr>
            msg_type := snprintf_buf TS_MAX_TYPE ''RESYNC_REQUIRED'',
            msg_op_id := snprintf_buf TS_MAX_OP_ID op_id,
            msg_reason := snprintf_buf TS_MAX_REASON
              (if base_version < doc_history_start_version doc
               then ''operation history expired'' else ''client version is ahead of server''),
            msg_server_version := doc_version doc,
            msg_history_start_version := doc_history_start_version doc\<rparr>,
          ts_message_init\<lparr>
            msg_type := snprintf_buf TS_MAX_TYPE ''DOC_STATE'',
            msg_version := doc_version doc,
            msg_history_start_version := doc_history_start_version doc,
            msg_content := Some (ts_strdup (Some (doc_text doc)))\<rparr>]\<rparr>"

text \<open>The loop over the history from the client's base version.\<close>

definition transform_from_history :: "TsHistoryEntry list \<Rightarrow> int \<Rightarrow> TsOperation \<Rightarrow> TsOperation" where
  "transform_from_history history base_version op =
     foldl (\<lambda>transformed entry.
              if he_server_version entry > base_version
              then ts_transform_against transformed (he_op entry) else transformed)
       (ts_operation_clone op) history"

definition make_ack :: "string \<Rightarrow> string \<Rightarrow> int \<Rightarrow> int \<Rightarrow> int \<Rightarrow> TsOperation \<Rightarrow> TsOperation \<Rightarrow> TsMessage" where
  "make_ack client_id op_id base_version server_version version op transformed =
     ts_message_init\<lparr>
       msg_type := snprintf_buf TS_MAX_TYPE ''ACK'',
       msg_client_id := snprintf_buf TS_MAX_CLIENT_ID client_id,
       msg_op_id := snprintf_buf TS_MAX_OP_ID op_id,
       msg_base_version := base_version,
       msg_server_version := server_version,
       msg_version := version,
       msg_op := transformed, msg_has_op := True,
       msg_original_op := op, msg_has_original_op := True\<rparr>"

definition make_remote :: "string \<Rightarrow> string \<Rightarrow> int \<Rightarrow> int \<Rightarrow> TsOperation \<Rightarrow> TsMessage" where
  "make_remote client_id op_id server_version version transformed =
     ts_message_init\<lparr>
       msg_type := snprintf_buf TS_MAX_TYPE ''REMOTE_OP'',
       msg_client_id := snprintf_buf TS_MAX_CLIENT_ID client_id,
       msg_op_id := snprintf_buf TS_MAX_OP_ID op_id,
       msg_server_version := server_version,
       msg_version := version,
       msg_op := transformed, msg_has_op := True\<rparr>"

text \<open>The rest of the critical section: transform, normalise, advance the version, apply, record
  in the history, and build the acknowledgement, the broadcast, the snapshot and the log line.
  The increment of the version is undefined at \<open>INT_MAX\<close>, applying is undefined where the text
  routines are.\<close>

definition process_accept ::
  "TsDocument \<Rightarrow> string \<Rightarrow> string \<Rightarrow> int \<Rightarrow> TsOperation \<Rightarrow> (TsProcessResult \<times> TsDocument) ub" where
  "process_accept doc client_id op_id base_version op = do {
     let transformed = transform_from_history (doc_history doc) base_version op;
     let transformed = normalize_for_apply doc transformed;
     server_version \<leftarrow> c_int_inc (doc_version doc);
     updated \<leftarrow> ts_apply_operation_to_text (Some (doc_text doc)) (Some transformed);
     let doc = doc\<lparr>doc_version := server_version, doc_text := updated\<rparr>;
     let entry =
       \<lparr>he_server_version = server_version,
        he_client_id = snprintf_buf TS_MAX_CLIENT_ID client_id,
        he_op_id = snprintf_buf TS_MAX_OP_ID op_id,
        he_base_version = base_version,
        he_original_op = ts_operation_clone op,
        he_op = ts_operation_clone transformed\<rparr>;
     let doc = append_history doc entry;
     Some
       (ts_process_result_init\<lparr>
          res_status := TS_PROCESS_OK,
          res_has_ack := True,
          res_ack := make_ack client_id op_id base_version server_version (doc_version doc) op transformed,
          res_has_remote := True,
          res_remote := make_remote client_id op_id server_version (doc_version doc) transformed,
          res_snapshot_content := Some (ts_strdup (Some (doc_text doc))),
          res_snapshot_version := doc_version doc,
          res_log_json :=
            build_operation_log 4096 server_version client_id op_id base_version op transformed
              (ts_utf8_char_count (Some (doc_text doc)))\<rparr>,
        doc)
   }"

definition ts_document_process_operation ::
  "TsDocument \<Rightarrow> string \<Rightarrow> string \<Rightarrow> int \<Rightarrow> TsOperation option \<Rightarrow> (TsProcessResult \<times> TsDocument) ub" where
  "ts_document_process_operation doc client_id op_id base_version op =
     (case op of
        None \<Rightarrow> Some (process_error op_id ''invalid operation'', doc)
      | Some op \<Rightarrow>
          if op_kind op = TS_OP_INVALID then Some (process_error op_id ''invalid operation'', doc)
          else if op_kind op = TS_OP_INSERT \<and> ts_utf8_char_count (Some (op_ch op)) \<noteq> 1 then
            Some (process_error op_id ''insert operation requires one UTF-8 character'', doc)
          else if base_version < doc_history_start_version doc \<or> base_version > doc_version doc then
            Some (process_resync doc op_id base_version, doc)
          else process_accept doc client_id op_id base_version op)"

end
