(* ===== verification/Document_Correct.thy ===== *)
theory Document_Correct
  imports Document
begin

text \<open>
  The document's invariant, that processing an operation keeps it, and what a processed
  operation does to the text: it performs the abstract transformed edit, so a deletion removes
  the character its author saw and an insertion stays between its neighbours.
\<close>

section \<open>Invariant\<close>

definition consecutive :: "int \<Rightarrow> TsHistoryEntry list \<Rightarrow> bool" where
  "consecutive v hs \<longleftrightarrow> (\<forall>i < length hs. he_server_version (hs ! i) = v + int i + 1)"

definition wf_document :: "TsDocument \<Rightarrow> bool" where
  "wf_document doc \<longleftrightarrow>
     0 < doc_history_limit doc \<and>
     doc_history_count doc \<le> doc_history_limit doc \<and>
     0 \<le> doc_history_start_version doc \<and>
     (0 < doc_history_start_version doc \<longrightarrow> doc_history_count doc = doc_history_limit doc) \<and>
     doc_version doc = doc_history_start_version doc + int (doc_history_count doc) \<and>
     doc_version doc \<le> c_int_max \<and>
     consecutive (doc_history_start_version doc) (doc_history doc) \<and>
     valid_utf8 (doc_text doc) \<and>
     list_all (\<lambda>e. good_op (he_op e)) (doc_history doc)"

lemma wf_documentD:
  assumes "wf_document doc"
  shows "0 < doc_history_limit doc" "length (doc_history doc) \<le> doc_history_limit doc"
    "0 \<le> doc_history_start_version doc"
    "doc_version doc = doc_history_start_version doc + int (length (doc_history doc))"
    "doc_version doc \<le> c_int_max"
    "consecutive (doc_history_start_version doc) (doc_history doc)"
    "valid_utf8 (doc_text doc)"
    "list_all (\<lambda>e. good_op (he_op e)) (doc_history doc)"
    "0 < doc_history_start_version doc \<Longrightarrow> length (doc_history doc) = doc_history_limit doc"
  using assms by (simp_all add: wf_document_def doc_history_count_def)

text \<open>The history always covers the last \<open>history_limit\<close> versions, or all of them.\<close>

lemma history_window:
  assumes "wf_document doc"
  shows "doc_history_start_version doc = max 0 (doc_version doc - int (doc_history_limit doc))"
  using wf_documentD(2,3,4,9) [OF assms] by linarith

lemma consecutive_Cons:
  "consecutive v (h # hs) \<longleftrightarrow> he_server_version h = v + 1 \<and> consecutive (v + 1) hs"
  by (auto simp: consecutive_def nth_Cons less_Suc_eq_0_disj split: nat.splits)

lemma consecutive_snoc:
  "consecutive v hs \<Longrightarrow> he_server_version h = v + int (length hs) + 1 \<Longrightarrow> consecutive v (hs @ [h])"
  by (auto simp: consecutive_def nth_append less_Suc_eq)

lemma consecutive_Nil [simp]: "consecutive v []"
  by (simp add: consecutive_def)

lemma consecutive_gt: "consecutive v hs \<Longrightarrow> h \<in> set hs \<Longrightarrow> v < he_server_version h"
  by (auto simp: consecutive_def in_set_conv_nth)

lemma wf_document_init:
  "valid_utf8 t \<Longrightarrow> wf_document (ts_document_init (Some t) limit)"
  by (simp add: wf_document_def ts_document_init_def doc_history_count_def c_int_max_def)

section \<open>The history loop\<close>

text \<open>The entries after the base version are a suffix of the history.\<close>

definition history_after :: "TsDocument \<Rightarrow> int \<Rightarrow> TsOperation list" where
  "history_after doc v = map he_op (drop (nat (v - doc_history_start_version doc)) (doc_history doc))"

lemma transform_from_history_filter:
  "transform_from_history hs b op = transform_all op (map he_op (filter (\<lambda>e. he_server_version e > b) hs))"
  unfolding transform_from_history_def ts_operation_clone_def
  by (induction hs arbitrary: op) (simp_all add: transform_all_def)

lemma filter_consecutive:
  "consecutive v hs \<Longrightarrow> v \<le> b \<Longrightarrow> filter (\<lambda>e. he_server_version e > b) hs = drop (nat (b - v)) hs"
proof (induction hs arbitrary: v)
  case (Cons h hs)
  show ?case
  proof (cases "b = v")
    case True
    with consecutive_gt [OF Cons.prems(1)] show ?thesis by (auto intro!: filter_True)
  next
    case False
    with Cons.prems have "he_server_version h \<le> b" "consecutive (v + 1) hs" "v + 1 \<le> b"
      by (simp_all add: consecutive_Cons)
    moreover from False Cons.prems(2) have "nat (b - v) = Suc (nat (b - (v + 1)))" by simp
    ultimately show ?thesis using Cons.IH by simp
  qed
qed simp

lemma transform_from_history_eq:
  assumes "wf_document doc" and "doc_history_start_version doc \<le> b"
  shows "transform_from_history (doc_history doc) b op = transform_all op (history_after doc b)"
  using filter_consecutive [OF wf_documentD(6) [OF assms(1)] assms(2)]
  by (simp add: transform_from_history_filter history_after_def)

section \<open>Normalisation\<close>

lemma normalize_good: "good_op op \<Longrightarrow> good_op (normalize_for_apply doc op)"
  by (auto simp: normalize_for_apply_def good_op_def Let_def)

lemma normalize_wf:
  assumes "wf_operation op"
  shows "wf_operation (normalize_for_apply doc op)"
proof -
  have "wf_operation (ts_operation_noop (Some op) (Some ''delete position out of range''))"
    "wf_operation (ts_operation_noop (Some op) (Some ''invalid operation''))"
    using assms by (auto intro!: wf_operation_noop)
  with assms show ?thesis
    by (auto simp: normalize_for_apply_def Let_def wf_operation_def)
qed

text \<open>Normalising changes no effect: it performs the same edit of the text.\<close>

lemma normalize_effect:
  assumes "valid_utf8 (doc_text doc)"
  shows "apply_edit (edit_of (normalize_for_apply doc op)) (utf8_chars (doc_text doc)) =
         apply_edit (edit_of op) (utf8_chars (doc_text doc))"
  using assms
  by (cases "op_kind op") (auto simp: normalize_for_apply_def Let_def utf8.count_chars)

text \<open>A normalised operation is in range.\<close>

lemma normalize_in_range:
  assumes "valid_utf8 (doc_text doc)"
  shows "in_range (edit_of (normalize_for_apply doc op)) (utf8_chars (doc_text doc))"
  using assms
  by (cases "op_kind op") (auto simp: normalize_for_apply_def Let_def utf8.count_chars in_range_def)

lemma normalize_valid_kind: "op_kind (normalize_for_apply doc op) \<noteq> TS_OP_INVALID"
  by (cases "op_kind op") (auto simp: normalize_for_apply_def Let_def)

section \<open>Appending to the history\<close>

lemma append_history_simps [simp]:
  "doc_text (append_history doc e) = doc_text doc"
  "doc_version (append_history doc e) = doc_version doc"
  "doc_history_limit (append_history doc e) = doc_history_limit doc"
  by (simp_all add: append_history_def Let_def)

lemma append_history_room:
  assumes "length (doc_history doc) \<noteq> doc_history_limit doc"
  shows "doc_history (append_history doc e) = doc_history doc @ [e]"
  using assms by (simp add: append_history_def doc_history_count_def Let_def)

lemma append_history_full:
  assumes "length (doc_history doc) = doc_history_limit doc"
  shows "doc_history (append_history doc e) = tl (doc_history doc) @ [e]"
  using assms by (simp add: append_history_def doc_history_count_def Let_def)

text \<open>The start version of the new history, from the invariant of the old one.\<close>

lemma append_history_start:
  assumes wf: "wf_document doc" and e: "he_server_version e = doc_version doc + 1"
  shows "doc_history_start_version (append_history (doc\<lparr>doc_version := v, doc_text := t\<rparr>) e) =
    (if length (doc_history doc) = doc_history_limit doc
     then doc_history_start_version doc + 1 else doc_history_start_version doc)"
proof (cases "doc_history doc")
  case Nil
  with wf_documentD [OF wf] e show ?thesis
    by (simp add: append_history_def doc_history_count_def Let_def)
next
  case (Cons h hs)
  note wf' = wf_documentD [OF wf]
  from wf'(6) Cons have h: "he_server_version h = doc_history_start_version doc + 1"
    "consecutive (doc_history_start_version doc + 1) hs" by (simp_all add: consecutive_Cons)
  show ?thesis
  proof (cases hs)
    case Nil
    with Cons h e wf' show ?thesis
      by (simp add: append_history_def doc_history_count_def Let_def)
  next
    case (Cons k ks)
    with h have "he_server_version k = doc_history_start_version doc + 2"
      by (simp add: consecutive_Cons)
    with \<open>doc_history doc = h # hs\<close> Cons h e wf'(3) show ?thesis
      by (simp add: append_history_def doc_history_count_def Let_def)
  qed
qed

lemma consecutive_tl: "consecutive v (h # hs) \<Longrightarrow> consecutive (v + 1) hs"
  by (simp add: consecutive_Cons)

lemma wf_append_history:
  assumes wf: "wf_document doc" and room: "doc_version doc < c_int_max"
    and e: "he_server_version e = doc_version doc + 1" "good_op (he_op e)" and t: "valid_utf8 t"
  shows "wf_document (append_history (doc\<lparr>doc_version := doc_version doc + 1, doc_text := t\<rparr>) e)"
    (is "wf_document ?doc'")
proof -
  note wf' = wf_documentD [OF wf]
  note start = append_history_start [OF wf e(1), where v = "doc_version doc + 1" and t = t]
  show ?thesis
  proof (cases "length (doc_history doc) = doc_history_limit doc")
    case True
    with wf'(1) obtain h hs where h: "doc_history doc = h # hs" by (cases "doc_history doc") auto
    have hist: "doc_history ?doc' = hs @ [e]" using True h by (simp add: append_history_full)
    from start True have start': "doc_history_start_version ?doc' = doc_history_start_version doc + 1"
      by simp
    have len: "length hs + 1 = doc_history_limit doc" using True h by simp
    have "consecutive (doc_history_start_version doc + 1) (hs @ [e])"
      using wf'(4,6) h e(1) by (intro consecutive_snoc consecutive_tl [of _ h]) simp_all
    then show ?thesis
      unfolding wf_document_def doc_history_count_def hist start'
      using len wf'(1,3,4,5,8) h e(2) t room by simp
  next
    case False
    have hist: "doc_history ?doc' = doc_history doc @ [e]" using False by (simp add: append_history_room)
    from start False have start': "doc_history_start_version ?doc' = doc_history_start_version doc"
      by simp
    have "consecutive (doc_history_start_version doc) (doc_history doc @ [e])"
      using wf'(4,6) e(1) by (intro consecutive_snoc) simp_all
    then show ?thesis
      unfolding wf_document_def doc_history_count_def hist start'
      using False wf'(1,2,3,4,5,8,9) e(2) t room by auto
  qed
qed

section \<open>One accepted operation\<close>

definition transformed_op :: "TsDocument \<Rightarrow> int \<Rightarrow> TsOperation \<Rightarrow> TsOperation" where
  "transformed_op doc b op = normalize_for_apply doc (transform_from_history (doc_history doc) b op)"

definition accept_entry :: "TsDocument \<Rightarrow> string \<Rightarrow> string \<Rightarrow> int \<Rightarrow> TsOperation \<Rightarrow> TsHistoryEntry" where
  "accept_entry doc cid oid b op =
     \<lparr>he_server_version = doc_version doc + 1,
      he_client_id = snprintf_buf TS_MAX_CLIENT_ID cid, he_op_id = snprintf_buf TS_MAX_OP_ID oid,
      he_base_version = b, he_original_op = op, he_op = transformed_op doc b op\<rparr>"

definition accept_doc :: "TsDocument \<Rightarrow> string \<Rightarrow> string \<Rightarrow> int \<Rightarrow> TsOperation \<Rightarrow> string \<Rightarrow> TsDocument" where
  "accept_doc doc cid oid b op t =
     append_history (doc\<lparr>doc_version := doc_version doc + 1, doc_text := t\<rparr>) (accept_entry doc cid oid b op)"

definition accept_result :: "TsDocument \<Rightarrow> string \<Rightarrow> string \<Rightarrow> int \<Rightarrow> TsOperation \<Rightarrow> string \<Rightarrow> TsProcessResult" where
  "accept_result doc cid oid b op t =
     ts_process_result_init\<lparr>
       res_status := TS_PROCESS_OK, res_has_ack := True,
       res_ack := make_ack cid oid b (doc_version doc + 1) (doc_version doc + 1) op (transformed_op doc b op),
       res_has_remote := True,
       res_remote := make_remote cid oid (doc_version doc + 1) (doc_version doc + 1) (transformed_op doc b op),
       res_snapshot_content := Some t, res_snapshot_version := doc_version doc + 1,
       res_log_json := build_operation_log 4096 (doc_version doc + 1) cid oid b op
         (transformed_op doc b op) (ts_utf8_char_count (Some t))\<rparr>"

lemma process_accept_eq:
  "process_accept doc cid oid b op =
     (if doc_version doc < c_int_max then
        map_option (\<lambda>t. (accept_result doc cid oid b op t, accept_doc doc cid oid b op t))
          (ts_apply_operation_to_text (Some (doc_text doc)) (Some (transformed_op doc b op)))
      else None)"
  by (cases "ts_apply_operation_to_text (Some (doc_text doc)) (Some (transformed_op doc b op))")
    (simp_all add: process_accept_def Let_def c_int_inc_def transformed_op_def accept_result_def
      accept_doc_def accept_entry_def)

lemma good_history_after: "wf_document doc \<Longrightarrow> list_all good_op (history_after doc b)"
  using wf_documentD(8) [of doc] by (auto simp: history_after_def list_all_iff dest: in_set_dropD)

lemma transformed_good:
  assumes "wf_document doc" and "good_op op" and "doc_history_start_version doc \<le> b"
  shows "good_op (transformed_op doc b op)"
  using assms by (simp add: transformed_op_def transform_from_history_eq normalize_good transform_all_good)

text \<open>What the processed operation does to the text: the abstract edit, transformed against the
  edits of the history after the base version.\<close>

lemma transformed_effect:
  assumes "wf_document doc" and "doc_history_start_version doc \<le> b"
    and "op_pos op + doc_history_limit doc < 18446744073709551616"
  shows "apply_edit (edit_of (transformed_op doc b op)) (utf8_chars (doc_text doc)) =
    apply_edit (xform_all (edit_of op) (map edit_of (history_after doc b))) (utf8_chars (doc_text doc))"
proof -
  have "op_pos op + length (history_after doc b) < 18446744073709551616"
    using assms(3) wf_documentD(2) [OF assms(1)] by (simp add: history_after_def)
  then show ?thesis
    using assms(1,2) by (simp add: transformed_op_def normalize_effect wf_documentD(7)
        transform_from_history_eq edit_of_transform_all)
qed

lemma accept_Some:
  assumes wf: "wf_document doc" and room: "doc_version doc < c_int_max" and op: "good_op op"
    and b: "doc_history_start_version doc \<le> b"
  obtains t where
    "process_accept doc cid oid b op = Some (accept_result doc cid oid b op t, accept_doc doc cid oid b op t)"
    and "valid_utf8 t"
    and "utf8_chars t = apply_edit (edit_of (transformed_op doc b op)) (utf8_chars (doc_text doc))"
    and "wf_document (accept_doc doc cid oid b op t)"
proof -
  note good = transformed_good [OF wf op b]
  obtain t where t: "ts_apply_operation_to_text (Some (doc_text doc)) (Some (transformed_op doc b op)) = Some t"
    "valid_utf8 t" "utf8_chars t = apply_edit (edit_of (transformed_op doc b op)) (utf8_chars (doc_text doc))"
    using utf8.apply_chars [OF wf_documentD(7) [OF wf] good] by auto
  moreover have "wf_document (accept_doc doc cid oid b op t)"
    unfolding accept_doc_def using wf room t(2) good
    by (intro wf_append_history) (simp_all add: accept_entry_def)
  ultimately show ?thesis using room by (intro that) (simp_all add: process_accept_eq)
qed

lemma accept_doc_simps [simp]:
  "doc_text (accept_doc doc cid oid b op t) = t"
  "doc_version (accept_doc doc cid oid b op t) = doc_version doc + 1"
  "doc_history_limit (accept_doc doc cid oid b op t) = doc_history_limit doc"
  by (simp_all add: accept_doc_def)

lemma accept_doc_history:
  "doc_history (accept_doc doc cid oid b op t) =
    (if length (doc_history doc) = doc_history_limit doc then tl (doc_history doc) else doc_history doc)
      @ [accept_entry doc cid oid b op]"
  by (simp add: accept_doc_def append_history_room append_history_full)

section \<open>Every operation\<close>

text \<open>When the code rejects, asks for a resynchronisation, or accepts.\<close>

definition rejected :: "TsOperation option \<Rightarrow> bool" where
  "rejected op \<longleftrightarrow> (case op of None \<Rightarrow> True
     | Some p \<Rightarrow> op_kind p = TS_OP_INVALID \<or>
         op_kind p = TS_OP_INSERT \<and> ts_utf8_char_count (Some (op_ch p)) \<noteq> 1)"

definition base_in_range :: "TsDocument \<Rightarrow> int \<Rightarrow> bool" where
  "base_in_range doc b \<longleftrightarrow> doc_history_start_version doc \<le> b \<and> b \<le> doc_version doc"

lemma process_rejected:
  assumes "rejected op"
  shows "\<exists>r. ts_document_process_operation doc cid oid b op = Some (r, doc) \<and>
    res_status r = TS_PROCESS_ERROR \<and> res_message_count r = 1 \<and> length (res_messages r) = 2"
  using assms
  by (auto simp: rejected_def ts_document_process_operation_def process_error_def Let_def
      ts_process_result_init_def split: option.splits)

lemma process_out_of_range:
  assumes "\<not> rejected op" and "\<not> base_in_range doc b"
  shows "ts_document_process_operation doc cid oid b op = Some (process_resync doc oid b, doc)"
  using assms
  by (auto simp: rejected_def ts_document_process_operation_def base_in_range_def split: option.splits)

lemma process_accepted:
  assumes "\<not> rejected (Some op)" and "base_in_range doc b"
  shows "ts_document_process_operation doc cid oid b (Some op) = process_accept doc cid oid b op"
  using assms
  by (auto simp: rejected_def ts_document_process_operation_def base_in_range_def)

text \<open>The events of the document as a machine: whole calls of \<open>ts_document_process_operation\<close>.\<close>

type_synonym doc_event = "string \<times> string \<times> int \<times> TsOperation option"

definition doc_step :: "doc_event \<Rightarrow> TsDocument \<Rightarrow> TsDocument option" where
  "doc_step e doc = (case e of (cid, oid, b, op) \<Rightarrow>
     map_option snd (ts_document_process_operation doc cid oid b op))"

definition good_event :: "doc_event \<Rightarrow> bool" where
  "good_event e = (case e of (cid, oid, b, op) \<Rightarrow> (\<forall>p. op = Some p \<longrightarrow> good_op p))"

lemma doc_step_refused:
  assumes "rejected op \<or> \<not> base_in_range doc b"
  shows "doc_step (cid, oid, b, op) doc = Some doc"
proof (cases "rejected op")
  case True
  from process_rejected [OF this, of doc cid oid b] show ?thesis by (auto simp: doc_step_def)
next
  case False
  with assms show ?thesis by (simp add: doc_step_def process_out_of_range)
qed

lemma doc_step_cases:
  assumes "wf_document doc" and "good_event (cid, oid, b, op)" and "doc_version doc < c_int_max"
  shows "doc_step (cid, oid, b, op) doc = Some doc \<or>
    (\<exists>p t. op = Some p \<and> doc_step (cid, oid, b, op) doc = Some (accept_doc doc cid oid b p t) \<and>
      wf_document (accept_doc doc cid oid b p t))"
proof (cases "rejected op \<or> \<not> base_in_range doc b")
  case True
  then show ?thesis by (simp add: doc_step_refused)
next
  case False
  then obtain p where p: "op = Some p" by (cases op) (auto simp: rejected_def)
  with False assms have "good_op p" "doc_history_start_version doc \<le> b"
    by (auto simp: good_event_def base_in_range_def)
  from accept_Some [OF assms(1,3) this, of cid oid] obtain t where
    "process_accept doc cid oid b p = Some (accept_result doc cid oid b p t, accept_doc doc cid oid b p t)"
    "wf_document (accept_doc doc cid oid b p t)" by metis
  with False p show ?thesis by (auto simp: doc_step_def process_accepted)
qed

lemma doc_step_wf:
  assumes "wf_document doc" and "good_event e" and "doc_step e doc = Some doc'"
  shows "wf_document doc'"
proof (cases "doc_version doc < c_int_max")
  case True
  obtain cid oid b op where "e = (cid, oid, b, op)" by (cases e)
  with doc_step_cases [OF assms(1) _ True, of cid oid b op] assms show ?thesis by auto
next
  case False
  obtain cid oid b op where e: "e = (cid, oid, b, op)" by (cases e)
  show ?thesis
  proof (cases "rejected op \<or> \<not> base_in_range doc b")
    case True
    with e assms show ?thesis by (simp add: doc_step_refused)
  next
    case ok: False
    then obtain p where p: "op = Some p" by (cases op) (auto simp: rejected_def)
    with ok False e assms(3) show ?thesis
      by (simp add: doc_step_def process_accepted process_accept_eq)
  qed
qed

interpretation document: safe_machine doc_step wf_document good_event
  "\<lambda>doc. nat (c_int_max - doc_version doc)"
proof unfold_locales
  fix doc e doc' assume "wf_document doc" "good_event e" "doc_step e doc = Some doc'"
  then show "wf_document doc'" by (rule doc_step_wf)
next
  fix doc e assume "wf_document doc" "good_event e" and room: "0 < nat (c_int_max - doc_version doc)"
  moreover obtain cid oid b op where "e = (cid, oid, b, op)" by (cases e)
  ultimately show "\<exists>doc'. doc_step e doc = Some doc' \<and>
      nat (c_int_max - doc_version doc) \<le> Suc (nat (c_int_max - doc_version doc'))"
    using doc_step_cases [of doc cid oid b op] by auto
qed

section \<open>The text is the replay of the history\<close>

text \<open>\<open>replays xs doc\<close>: the history, replayed from the characters \<open>xs\<close> of the text at the start
  version, gives the current text; \<open>chars_at xs doc v\<close> are the characters at version \<open>v\<close>.\<close>

definition history_edits :: "TsDocument \<Rightarrow> string edit list" where
  "history_edits doc = map (\<lambda>e. edit_of (he_op e)) (doc_history doc)"

definition replays :: "string list \<Rightarrow> TsDocument \<Rightarrow> bool" where
  "replays xs doc \<longleftrightarrow> replay (history_edits doc) xs = utf8_chars (doc_text doc)"

definition chars_at :: "string list \<Rightarrow> TsDocument \<Rightarrow> int \<Rightarrow> string list" where
  "chars_at xs doc v = replay (take (nat (v - doc_history_start_version doc)) (history_edits doc)) xs"

lemma map_edit_history_after:
  "map edit_of (history_after doc b) = drop (nat (b - doc_history_start_version doc)) (history_edits doc)"
  by (simp add: history_after_def history_edits_def drop_map)

lemma replay_history_after:
  assumes "replays xs doc"
  shows "replay (map edit_of (history_after doc b)) (chars_at xs doc b) = utf8_chars (doc_text doc)"
proof -
  let ?n = "nat (b - doc_history_start_version doc)"
  have "replay (map edit_of (history_after doc b)) (chars_at xs doc b) =
      replay (take ?n (history_edits doc) @ drop ?n (history_edits doc)) xs"
    by (simp only: map_edit_history_after chars_at_def replay_simps)
  also have "\<dots> = utf8_chars (doc_text doc)" using assms by (simp add: replays_def)
  finally show ?thesis .
qed

lemma chars_at_current:
  "wf_document doc \<Longrightarrow> replays xs doc \<Longrightarrow> chars_at xs doc (doc_version doc) = utf8_chars (doc_text doc)"
  by (simp add: chars_at_def wf_documentD(4) history_edits_def replays_def)

lemma replays_accept:
  assumes wf: "wf_document doc" and rep: "replays xs doc"
    and t: "utf8_chars t = apply_edit (edit_of (transformed_op doc b op)) (utf8_chars (doc_text doc))"
  shows "\<exists>ys. replays ys (accept_doc doc cid oid b op t)"
proof (cases "length (doc_history doc) = doc_history_limit doc")
  case True
  with wf_documentD(1) [OF wf] obtain h hs where h: "doc_history doc = h # hs"
    by (cases "doc_history doc") auto
  with True rep t have "replays (apply_edit (edit_of (he_op h)) xs) (accept_doc doc cid oid b op t)"
    by (simp add: replays_def history_edits_def accept_doc_history accept_entry_def)
  then show ?thesis by blast
next
  case False
  with rep t have "replays xs (accept_doc doc cid oid b op t)"
    by (simp add: replays_def history_edits_def accept_doc_history accept_entry_def)
  then show ?thesis by blast
qed

text \<open>What is known of every document the server can reach.\<close>

definition sound_document :: "TsDocument \<Rightarrow> bool" where
  "sound_document doc \<longleftrightarrow> wf_document doc \<and> (\<exists>xs. replays xs doc)"

lemma sound_step:
  assumes "sound_document doc" and "good_event e" and "doc_step e doc = Some doc'"
  shows "sound_document doc'"
proof -
  obtain cid oid b op where e: "e = (cid, oid, b, op)" by (cases e)
  from assms(1) obtain xs where wf: "wf_document doc" and xs: "replays xs doc"
    by (auto simp: sound_document_def)
  have wf': "wf_document doc'" using wf assms(2,3) by (rule doc_step_wf)
  show ?thesis
  proof (cases "rejected op \<or> \<not> base_in_range doc b")
    case True
    with e assms show ?thesis by (simp add: doc_step_refused)
  next
    case False
    then obtain p where p: "op = Some p" by (cases op) (auto simp: rejected_def)
    from False p e assms(3) obtain t where
      t: "ts_apply_operation_to_text (Some (doc_text doc)) (Some (transformed_op doc b p)) = Some t"
      and doc': "doc' = accept_doc doc cid oid b p t"
      by (auto simp: doc_step_def process_accepted process_accept_eq split: if_splits)
    have "good_op (transformed_op doc b p)"
      using wf False p e assms(2) by (intro transformed_good) (auto simp: good_event_def base_in_range_def)
    with utf8.apply_SomeD [OF wf_documentD(7) [OF wf] _ t]
    have "utf8_chars t = apply_edit (edit_of (transformed_op doc b p)) (utf8_chars (doc_text doc))" by simp
    with replays_accept [OF wf xs] wf' doc' show ?thesis by (simp add: sound_document_def)
  qed
qed

interpretation sound: inv_machine doc_step sound_document good_event
  by unfold_locales (rule sound_step)

lemma sound_init: "valid_utf8 t \<Longrightarrow> sound_document (ts_document_init (Some t) limit)"
  using wf_document_init [of t limit]
  by (simp add: sound_document_def replays_def history_edits_def ts_document_init_def)

section \<open>What a processed deletion and insertion do\<close>

lemma accepted_effect:
  assumes wf: "wf_document doc" and room: "doc_version doc < c_int_max"
    and op: "good_op op" "\<not> rejected (Some op)" and b: "base_in_range doc b"
    and pos: "op_pos op + doc_history_limit doc < 18446744073709551616"
  obtains t where
    "ts_document_process_operation doc cid oid b (Some op) =
       Some (accept_result doc cid oid b op t, accept_doc doc cid oid b op t)"
    and "valid_utf8 t"
    and "utf8_chars t =
       apply_edit (xform_all (edit_of op) (map edit_of (history_after doc b))) (utf8_chars (doc_text doc))"
    and "utf8_chars t = apply_edit (edit_of (transformed_op doc b op)) (utf8_chars (doc_text doc))"
proof -
  from b have "doc_history_start_version doc \<le> b" by (simp add: base_in_range_def)
  from accept_Some [OF wf room op(1) this, of cid oid] transformed_effect [OF wf this pos]
  show ?thesis using that op(2) b by (metis process_accepted)
qed

lemma not_rejected_delete: "op_kind op = TS_OP_DELETE \<Longrightarrow> \<not> rejected (Some op) \<and> good_op op"
  by (simp add: rejected_def good_op_def)

lemma not_rejected_insert:
  "op_kind op = TS_OP_INSERT \<Longrightarrow> utf8_char (op_ch op) \<Longrightarrow> \<not> rejected (Some op) \<and> good_op op"
  by (simp add: rejected_def good_op_def char_count_char)

text \<open>The operation that is stored and sent out, from the transformed edit.\<close>

lemma transformed_op_kind_delete:
  assumes wf: "wf_document doc" and b: "doc_history_start_version doc \<le> b"
    and op: "op_kind op = TS_OP_DELETE" "op_pos op + doc_history_limit doc < 18446744073709551616"
  shows "edit_of (transform_from_history (doc_history doc) b op) =
    (case track_all (map edit_of (history_after doc b)) (op_pos op) of None \<Rightarrow> Nop | Some r \<Rightarrow> Del r)"
proof -
  have "op_pos op + length (history_after doc b) < 18446744073709551616"
    using op(2) wf_documentD(2) [OF wf] by (simp add: history_after_def)
  with op(1) show ?thesis
    by (simp add: transform_from_history_eq [OF wf b] edit_of_transform_all xform_all_Del)
qed

lemma edit_of_Del: "edit_of p = Del r \<longleftrightarrow> op_kind p = TS_OP_DELETE \<and> op_pos p = r"
  by (cases "op_kind p") auto

lemma normalize_keeps_Del:
  "edit_of p = Del r \<Longrightarrow> r < ts_utf8_char_count (Some (doc_text doc)) \<Longrightarrow> normalize_for_apply doc p = p"
  by (auto simp: edit_of_Del normalize_for_apply_def Let_def)

lemma normalize_Nop:
  "edit_of p = Nop \<Longrightarrow> op_kind (normalize_for_apply doc p) = TS_OP_NOOP"
  by (cases "op_kind p") (auto simp: normalize_for_apply_def Let_def)

text \<open>C3: A deletion that the server accepts removes exactly the character its author saw at that
  position in the version the author edited, wherever concurrent edits have moved it; when one of
  them has already deleted that character, the text stays as it is and the operation sent out is a
  no-op.\<close>

theorem deletion_hits_intended_character:
  assumes wf: "wf_document doc" and xs: "replays xs doc" and room: "doc_version doc < c_int_max"
    and b: "base_in_range doc b" and op: "op_kind op = TS_OP_DELETE"
    and p: "op_pos op < length (chars_at xs doc b)"
    and fits: "op_pos op + doc_history_limit doc < 18446744073709551616"
  shows "\<exists>r doc'. ts_document_process_operation doc cid oid b (Some op) = Some (r, doc') \<and>
    res_status r = TS_PROCESS_OK \<and> doc_version doc' = doc_version doc + 1 \<and>
    (case track_all (map edit_of (history_after doc b)) (op_pos op) of
       Some q \<Rightarrow>
         utf8_chars (doc_text doc) ! q = chars_at xs doc b ! op_pos op \<and>
         q < length (utf8_chars (doc_text doc)) \<and>
         utf8_chars (doc_text doc') =
           take q (utf8_chars (doc_text doc)) @ drop (Suc q) (utf8_chars (doc_text doc)) \<and>
         edit_of (msg_op (res_ack r)) = Del q
     | None \<Rightarrow>
         doc_text doc' = doc_text doc \<and> op_kind (msg_op (res_ack r)) = TS_OP_NOOP)"
proof -
  let ?hs = "map edit_of (history_after doc b)" and ?cs = "utf8_chars (doc_text doc)"
  from not_rejected_delete [OF op] have g: "good_op op" "\<not> rejected (Some op)" by auto
  from b have b': "doc_history_start_version doc \<le> b" by (simp add: base_in_range_def)
  from accepted_effect [OF wf room g b fits, of cid oid] obtain t where t:
    "ts_document_process_operation doc cid oid b (Some op) =
       Some (accept_result doc cid oid b op t, accept_doc doc cid oid b op t)"
    "valid_utf8 t" "utf8_chars t = apply_edit (xform_all (edit_of op) ?hs) ?cs" by metis
  note kind = transformed_op_kind_delete [OF wf b' op fits]
  have ack: "msg_op (res_ack (accept_result doc cid oid b op t)) = transformed_op doc b op"
    by (simp add: accept_result_def make_ack_def)
  show ?thesis
  proof (cases "track_all ?hs (op_pos op)")
    case None
    with t(3) op have "utf8_chars t = ?cs" by (simp add: xform_all_Del)
    then have "t = doc_text doc" by (metis concat_utf8_chars)
    moreover have "op_kind (transformed_op doc b op) = TS_OP_NOOP"
      using None kind by (simp add: transformed_op_def normalize_Nop)
    ultimately show ?thesis using None t(1) ack by (simp add: accept_result_def)
  next
    case (Some q)
    from track_all_nth [OF p Some] replay_history_after [OF xs, of b]
    have q: "q < length ?cs" "?cs ! q = chars_at xs doc b ! op_pos op" by auto
    have "edit_of (transformed_op doc b op) = Del q"
      using kind Some q(1) wf_documentD(7) [OF wf]
      by (simp add: transformed_op_def normalize_keeps_Del utf8.count_chars)
    moreover have "utf8_chars t = take q ?cs @ drop (Suc q) ?cs"
      using t(3) op Some by (simp add: xform_all_Del)
    ultimately show ?thesis using Some t(1) ack q by (simp add: accept_result_def)
  qed
qed

text \<open>C11: An insertion that the server accepts puts its character between the same neighbours its
  author saw: every character of the author's version that is still in the text is to the left of
  the new character if and only if the author had it to the left of the insertion point.\<close>

theorem insertion_keeps_neighbours:
  assumes wf: "wf_document doc" and xs: "replays xs doc" and room: "doc_version doc < c_int_max"
    and b: "base_in_range doc b" and op: "op_kind op = TS_OP_INSERT" "utf8_char (op_ch op)"
    and fits: "op_pos op + doc_history_limit doc < 18446744073709551616"
  shows "\<exists>r doc' q. ts_document_process_operation doc cid oid b (Some op) = Some (r, doc') \<and>
    res_status r = TS_PROCESS_OK \<and> doc_version doc' = doc_version doc + 1 \<and>
    q \<le> length (utf8_chars (doc_text doc)) \<and>
    utf8_chars (doc_text doc') =
      take q (utf8_chars (doc_text doc)) @ op_ch op # drop q (utf8_chars (doc_text doc)) \<and>
    (\<forall>i < length (chars_at xs doc b). \<forall>s.
       track_all (map edit_of (history_after doc b)) i = Some s \<longrightarrow>
       utf8_chars (doc_text doc) ! s = chars_at xs doc b ! i \<and> (s < q) = (i < op_pos op))"
proof -
  let ?hs = "map edit_of (history_after doc b)" and ?cs = "utf8_chars (doc_text doc)"
  from not_rejected_insert [OF op] have g: "good_op op" "\<not> rejected (Some op)" by auto
  from accepted_effect [OF wf room g b fits, of cid oid] obtain t where t:
    "ts_document_process_operation doc cid oid b (Some op) =
       Some (accept_result doc cid oid b op t, accept_doc doc cid oid b op t)"
    "valid_utf8 t" "utf8_chars t = apply_edit (xform_all (edit_of op) ?hs) ?cs" by metis
  obtain q where q: "xform_all (Ins (op_pos op) (op_ch op)) ?hs = Ins q (op_ch op)"
    using xform_all_Ins_is_Ins [of "op_pos op" "op_ch op" ?hs] by blast
  let ?q = "min q (length ?cs)"
  have "utf8_chars t = take ?q ?cs @ op_ch op # drop ?q ?cs"
    using t(3) op(1) q by (cases "q \<le> length ?cs") (simp_all add: min_def)
  moreover have "?cs ! s = chars_at xs doc b ! i \<and> (s < ?q) = (i < op_pos op)"
    if "i < length (chars_at xs doc b)" "track_all ?hs i = Some s" for i s
    using track_all_nth [OF that] xform_all_Ins_side [OF q that(2)] replay_history_after [OF xs, of b]
    by auto
  ultimately show ?thesis using t(1)
    by (intro exI [of _ "accept_result doc cid oid b op t"] exI [of _ "accept_doc doc cid oid b op t"]
        exI [of _ ?q]) (simp add: accept_result_def)
qed

section \<open>Runs of the document\<close>


text \<open>C17: A client is asked to resynchronise exactly when its base version is not among the last
  \<open>history_limit\<close> versions: the answer is \<open>RESYNC_REQUIRED\<close> followed by the current
  document, and the document does not change.\<close>

theorem resync_iff_outside_window:
  assumes wf: "wf_document doc" and room: "doc_version doc < c_int_max"
    and op: "good_op op" "\<not> rejected (Some op)"
  shows "\<exists>r doc'. ts_document_process_operation doc cid oid b (Some op) = Some (r, doc') \<and>
    (res_status r = TS_PROCESS_RESYNC) =
      (b < max 0 (doc_version doc - int (doc_history_limit doc)) \<or> doc_version doc < b) \<and>
    (if res_status r = TS_PROCESS_RESYNC
     then doc' = doc \<and> map msg_type (res_messages r) = [''RESYNC_REQUIRED'', ''DOC_STATE''] \<and>
       msg_content (res_messages r ! 1) = Some (doc_text doc) \<and>
       msg_version (res_messages r ! 1) = doc_version doc
     else res_status r = TS_PROCESS_OK \<and> doc_version doc' = doc_version doc + 1)"
proof (cases "base_in_range doc b")
  case True
  from True have b: "doc_history_start_version doc \<le> b" by (simp add: base_in_range_def)
  from accept_Some [OF wf room op(1) b, of cid oid] process_accepted [OF op(2) True] obtain t where
    "ts_document_process_operation doc cid oid b (Some op) =
       Some (accept_result doc cid oid b op t, accept_doc doc cid oid b op t)" by metis
  with True history_window [OF wf] show ?thesis by (auto simp: accept_result_def base_in_range_def)
next
  case False
  with process_out_of_range [OF op(2) False, of cid oid] history_window [OF wf] show ?thesis
    by (auto simp: process_resync_def base_in_range_def snprintf_buf_def ts_sizes)
qed

text \<open>C26: A request without an operation, with an invalid kind, or inserting anything but one
  counted character is answered with one \<open>ERROR\<close> message that carries the request's
  identifier, whatever the base version, and the document does not change.\<close>

theorem rejection_keeps_document:
  assumes "rejected op" and "length oid < TS_MAX_OP_ID"
  shows "\<exists>r. ts_document_process_operation doc cid oid b op = Some (r, doc) \<and>
    res_status r = TS_PROCESS_ERROR \<and> res_message_count r = 1 \<and>
    msg_type (res_messages r ! 0) = ''ERROR'' \<and> msg_op_id (res_messages r ! 0) = oid"
  using assms
  by (auto simp: rejected_def ts_document_process_operation_def process_error_def Let_def
      ts_process_result_init_def set_message_error_def snprintf_buf_def ts_sizes split: option.splits)

section \<open>A concrete document\<close>

text \<open>The text \<open>abc\<close> after client \<open>A\<close> has inserted \<open>x\<close> at its front: the state in which the
  theorems of this file are applied to concrete requests of a client \<open>B\<close> that still edits
  version 0.\<close>

definition example_doc :: TsDocument where
  "example_doc =
     \<lparr>doc_text = ''xabc'', doc_version = 1, doc_history_start_version = 0, doc_history_limit = 1000,
      doc_history =
        [\<lparr>he_server_version = 1, he_client_id = ''A'', he_op_id = ''A-1'', he_base_version = 0,
          he_original_op = ts_operation_init TS_OP_INSERT 0 (Some ''x''),
          he_op = ts_operation_init TS_OP_INSERT 0 (Some ''x'')\<rparr>]\<rparr>"

lemma example_ascii: "list_all is_ascii ''xabc''" "list_all is_ascii ''abc''" "is_ascii CHR ''x''"
  "is_ascii CHR ''y''"
  by (simp_all add: is_ascii_def byte_val_def)

lemma example_chars: "utf8_chars ''xabc'' = [''x'', ''a'', ''b'', ''c'']"
  by (simp add: utf8_chars_ascii [OF example_ascii(1)])

lemma example_doc_simps:
  "doc_text example_doc = ''xabc''" "doc_version example_doc = 1"
  "doc_history_start_version example_doc = 0" "doc_history_limit example_doc = 1000"
  "utf8_chars ''xabc'' = [''x'', ''a'', ''b'', ''c'']"
  "history_edits example_doc = [Ins 0 ''x'']"
  "history_after example_doc 0 = [ts_operation_init TS_OP_INSERT 0 (Some ''x'')]"
  "chars_at [''a'', ''b'', ''c''] example_doc 0 = [''a'', ''b'', ''c'']"
  by (simp_all add: example_chars example_doc_def history_edits_def history_after_def chars_at_def
      ts_operation_init_eq edit_of_def)

lemma example_doc_wf: "wf_document example_doc"
  using valid_utf8_ascii [OF example_ascii(1)] utf8_char_ascii [OF example_ascii(3)]
  by (simp add: example_doc_def wf_document_def doc_history_count_def c_int_max_def consecutive_def
      good_op_def ts_operation_init_eq)

lemma example_doc_replays: "replays [''a'', ''b'', ''c''] example_doc"
  by (simp add: replays_def example_doc_simps)

theorem deletion_hits_intended_character_witness:
  "\<exists>r doc'. ts_document_process_operation example_doc ''B'' ''B-1'' 0
      (Some (ts_operation_init TS_OP_DELETE 1 None)) = Some (r, doc') \<and>
    res_status r = TS_PROCESS_OK \<and> utf8_chars (doc_text doc') = [''x'', ''a'', ''c'']"
proof -
  have h: "doc_version example_doc < c_int_max" "base_in_range example_doc 0"
    "op_kind (ts_operation_init TS_OP_DELETE 1 None) = TS_OP_DELETE"
    "op_pos (ts_operation_init TS_OP_DELETE 1 None) < length (chars_at [''a'', ''b'', ''c''] example_doc 0)"
    "op_pos (ts_operation_init TS_OP_DELETE 1 None) + doc_history_limit example_doc < 18446744073709551616"
    by (simp_all add: example_doc_simps c_int_max_def base_in_range_def)
  from deletion_hits_intended_character [OF example_doc_wf example_doc_replays h, of "''B''" "''B-1''"]
  show ?thesis by (auto simp: example_doc_simps edit_of_def)
qed

theorem insertion_keeps_neighbours_witness:
  "\<exists>r doc' q. ts_document_process_operation example_doc ''B'' ''B-1'' 0
      (Some (ts_operation_init TS_OP_INSERT 1 (Some ''y''))) = Some (r, doc') \<and> 1 < q \<and> q \<le> 2 \<and>
    utf8_chars (doc_text doc') = take q [''x'', ''a'', ''b'', ''c''] @ ''y'' # drop q [''x'', ''a'', ''b'', ''c'']"
proof -
  let ?op = "ts_operation_init TS_OP_INSERT 1 (Some ''y'')"
  have h: "doc_version example_doc < c_int_max" "base_in_range example_doc 0"
    "op_kind ?op = TS_OP_INSERT" "utf8_char (op_ch ?op)"
    "op_pos ?op + doc_history_limit example_doc < 18446744073709551616"
    using utf8_char_ascii [OF example_ascii(4)]
    by (simp_all add: example_doc_simps c_int_max_def base_in_range_def ts_operation_init_eq)
  obtain r doc' q where r: "ts_document_process_operation example_doc ''B'' ''B-1'' 0 (Some ?op) = Some (r, doc')"
    and t: "utf8_chars (doc_text doc') = take q (utf8_chars (doc_text example_doc)) @
      op_ch ?op # drop q (utf8_chars (doc_text example_doc))"
    and side: "\<And>i s. i < length (chars_at [''a'', ''b'', ''c''] example_doc 0) \<Longrightarrow>
      track_all (map edit_of (history_after example_doc 0)) i = Some s \<Longrightarrow> (s < q) = (i < op_pos ?op)"
    using insertion_keeps_neighbours [OF example_doc_wf example_doc_replays h, of "''B''" "''B-1''"]
    by blast
  from side [of 0 1] side [of 1 2] have "1 < q" "q \<le> 2"
    by (simp_all add: example_doc_simps edit_of_def)
  moreover from t have "utf8_chars (doc_text doc') =
      take q [''x'', ''a'', ''b'', ''c''] @ ''y'' # drop q [''x'', ''a'', ''b'', ''c'']"
    by (simp add: example_doc_simps ts_operation_init_eq)
  ultimately show ?thesis using r by blast
qed


theorem resync_iff_outside_window_witness:
  "\<exists>r. ts_document_process_operation example_doc ''B'' ''B-1'' 2
      (Some (ts_operation_init TS_OP_DELETE 1 None)) = Some (r, example_doc) \<and>
    res_status r = TS_PROCESS_RESYNC"
proof -
  let ?op = "ts_operation_init TS_OP_DELETE 1 None"
  have h: "doc_version example_doc < c_int_max" "good_op ?op" "\<not> rejected (Some ?op)"
    by (simp_all add: example_doc_simps c_int_max_def good_op_def rejected_def)
  from resync_iff_outside_window [OF example_doc_wf h, of "''B''" "''B-1''" 2]
  show ?thesis by (auto simp: example_doc_simps)
qed

theorem rejection_keeps_document_witness:
  "\<exists>r. ts_document_process_operation example_doc ''B'' ''B-1'' 7 None = Some (r, example_doc) \<and>
    res_status r = TS_PROCESS_ERROR"
  using rejection_keeps_document [of None "''B-1''" example_doc "''B''" 7]
  by (auto simp: rejected_def ts_sizes)

section \<open>Where the code falls short\<close>

text \<open>C35: The server accepts an insertion whose bytes are only the beginning of a character (one
  non-continuation byte passes the check of \<open>ts_utf8_char_count\<close>), and the next insertion after it
  then reads past the end of the text: the byte offset steps over the terminator.\<close>

theorem truncated_character_faults:
  "\<exists>doc r. ts_document_process_operation (ts_document_init (Some []) 1000) cid oid 0
      (Some (ts_operation_init TS_OP_INSERT 0 (Some [CHR 0xE4]))) = Some (r, doc) \<and>
    res_status r = TS_PROCESS_OK \<and> doc_text doc = [CHR 0xE4] \<and>
    ts_document_process_operation doc cid oid 1
      (Some (ts_operation_init TS_OP_INSERT 1 (Some ''a''))) = None"
proof -
  let ?d = "ts_document_init (Some []) 1000" and ?op = "ts_operation_init TS_OP_INSERT 0 (Some [CHR 0xE4])"
  let ?doc = "accept_doc ?d cid oid 0 ?op [CHR 0xE4]"
  have first: "ts_document_process_operation ?d cid oid 0 (Some ?op) =
      Some (accept_result ?d cid oid 0 ?op [CHR 0xE4], ?doc)"
    by (simp add: ts_document_process_operation_def ts_document_init_def ts_operation_init_eq
        is_utf8_continuation_def byte_val_def process_accept_eq c_int_max_def transformed_op_def
        transform_from_history_def normalize_for_apply_def ts_apply_operation_to_text_def
        ts_utf8_byte_offset_def utf8_offset_loop.simps)
  have "doc_history ?doc = [accept_entry ?d cid oid 0 ?op]" "doc_text ?doc = [CHR 0xE4]"
    "doc_version ?doc = 1" "doc_history_start_version ?doc = 0"
    by (simp_all add: accept_doc_history ts_document_init_def accept_doc_def append_history_def
        doc_history_count_def accept_entry_def)
  then have "ts_document_process_operation ?doc cid oid 1 (Some (ts_operation_init TS_OP_INSERT 1 (Some ''a''))) = None"
    by (simp add: ts_document_process_operation_def ts_operation_init_eq is_utf8_continuation_def
        byte_val_def process_accept_eq transformed_op_def transform_from_history_def accept_entry_def
        normalize_for_apply_def ts_apply_operation_to_text_def ts_utf8_byte_offset_def
        utf8_offset_loop.simps [of "[CHR 0xE4]"] ts_utf8_char_bytes_def)
  with first show ?thesis by (auto simp: accept_result_def)
qed

text \<open>The inserted character stands in the log line as it is, within the first 400 bytes.\<close>

lemma log_contains_character:
  assumes "op_kind op = TS_OP_INSERT" and "x \<in> set (op_ch op)" and "length (op_ch op) < TS_MAX_UTF8_CHAR"
    and "0 \<le> v" "v \<le> c_int_max" "0 \<le> b" "b \<le> c_int_max" "op_pos op < 18446744073709551616"
    and "length cid < TS_MAX_CLIENT_ID" "length oid < TS_MAX_OP_ID"
  shows "x \<in> set (build_operation_log 4096 v cid oid b op tr n)"
proof -
  have "length (show_nat (op_pos op)) \<le> 20"
    using assms(8) by (intro length_show_nat) auto
  with assms(3,9,10) length_show_int [OF assms(4,5)] length_show_int [OF assms(6,7)]
  have "x \<in> set (snprintf_buf 4096 (
      (''{\"event\":\"operation\",\"server_version\":'' @ show_int v @
       '',\"client_id\":\"'' @ cid @ ''\",\"op_id\":\"'' @ oid @ ''\",\"base_version\":'' @ show_int b @
       '',\"original_op\":'' @ ''{\"kind\":\"insert\",\"pos\":'' @ show_nat (op_pos op) @
       '',\"char\":\"'') @ op_ch op @
      (''\"}'' @ '',\"transformed_op\":'' @ log_operation tr @ '',\"content_length\":'' @ show_nat n @ ''}'')))"
    by (intro in_snprintf_buf [OF assms(2)]) (simp add: ts_sizes)
  then show ?thesis
    using assms(1) by (simp add: build_operation_log_def log_operation_def ts_operation_kind_name_def)
qed

text \<open>The log line of every accepted operation that inserts a line break contains the raw line
  break, so that entry of the JSON Lines log spans two lines.\<close>

lemma log_line_is_split_by_newline:
  assumes wf: "wf_document doc" and room: "doc_version doc < c_int_max" and b: "base_in_range doc b"
    and fits: "op_pos op + doc_history_limit doc < 18446744073709551616"
    and op: "op_kind op = TS_OP_INSERT" "op_ch op = [CHR 0x0A]"
    and ids: "length cid < TS_MAX_CLIENT_ID" "length oid < TS_MAX_OP_ID"
  shows "\<exists>r doc'. ts_document_process_operation doc cid oid b (Some op) = Some (r, doc') \<and>
    res_status r = TS_PROCESS_OK \<and> CHR 0x0A \<in> set (res_log_json r)"
proof -
  have "utf8_char (op_ch op)" using op(2) by (simp add: utf8_char_ascii is_ascii_def byte_val_def)
  from not_rejected_insert [OF op(1) this] have g: "good_op op" "\<not> rejected (Some op)" by auto
  from accepted_effect [OF wf room g b fits, of cid oid] obtain t where t:
    "ts_document_process_operation doc cid oid b (Some op) =
       Some (accept_result doc cid oid b op t, accept_doc doc cid oid b op t)" by metis
  have "CHR 0x0A \<in> set (res_log_json (accept_result doc cid oid b op t))"
    unfolding accept_result_def using op ids b room fits wf_documentD(3) [OF wf]
    by (auto simp: base_in_range_def ts_sizes intro!: log_contains_character)
  with t show ?thesis by (auto simp: accept_result_def)
qed

lemma log_line_is_split_by_newline_example:
  "\<exists>r doc'. ts_document_process_operation example_doc ''u1'' ''u1-1'' 1
      (Some (ts_operation_init TS_OP_INSERT 0 (Some [CHR 0x0A]))) = Some (r, doc') \<and>
    res_status r = TS_PROCESS_OK \<and> CHR 0x0A \<in> set (res_log_json r)"
  by (rule log_line_is_split_by_newline [OF example_doc_wf])
    (simp_all add: example_doc_simps c_int_max_def base_in_range_def ts_operation_init_eq ts_sizes)

end
