(* ===== verification/ClientState.thy ===== *)
theory ClientState
  imports Message Utf8
begin

text \<open>
  The client's replica and send queue, \<open>client_state.c\<close>. The callback \<open>send_fn\<close> is modelled by
  its effect: every function that may call it returns the messages it passed, in order, next to
  the new state; \<open>cs_send_fn\<close> says whether the pointer is set, and calling it unset is undefined
  behaviour. The array \<open>queue\<close> with \<open>queue_len\<close> is the list of the pending operations.
\<close>

section \<open>State\<close>

record TsPendingOperation =
  po_op_id :: string
  po_op :: TsOperation
  po_base_version :: int

record TsClientState =
  cs_client_id :: string
  cs_content :: string
  cs_version :: int
  cs_history_start_version :: int
  cs_queue :: "TsPendingOperation list"
  cs_queue_cap :: nat
  cs_has_inflight :: bool
  cs_inflight :: TsPendingOperation
  cs_next_op_number :: int
  cs_status :: string
  cs_send_fn :: bool

definition cs_queue_len :: "TsClientState \<Rightarrow> nat" where
  "cs_queue_len state = length (cs_queue state)"

definition zero_pending :: TsPendingOperation where
  "zero_pending = \<lparr>po_op_id = [], po_op = zero_operation, po_base_version = 0\<rparr>"

definition set_status :: "string \<Rightarrow> TsClientState \<Rightarrow> TsClientState" where
  \<comment> \<open>\<open>snprintf(state->status, sizeof(state->status), ...)\<close>\<close>
  "set_status s state = state\<lparr>cs_status := snprintf_buf TS_MAX_STATUS s\<rparr>"

lemma set_status_simps [simp]:
  "cs_client_id (set_status s st) = cs_client_id st"
  "cs_content (set_status s st) = cs_content st"
  "cs_version (set_status s st) = cs_version st"
  "cs_history_start_version (set_status s st) = cs_history_start_version st"
  "cs_queue (set_status s st) = cs_queue st"
  "cs_queue_cap (set_status s st) = cs_queue_cap st"
  "cs_has_inflight (set_status s st) = cs_has_inflight st"
  "cs_inflight (set_status s st) = cs_inflight st"
  "cs_next_op_number (set_status s st) = cs_next_op_number st"
  "cs_send_fn (set_status s st) = cs_send_fn st"
  by (simp_all add: set_status_def)

definition zero_client_state :: TsClientState where
  "zero_client_state =
     \<lparr>cs_client_id = [], cs_content = [], cs_version = 0, cs_history_start_version = 0,
      cs_queue = [], cs_queue_cap = 0, cs_has_inflight = False, cs_inflight = zero_pending,
      cs_next_op_number = 0, cs_status = [], cs_send_fn = False\<rparr>"

definition ts_client_state_init :: "string option \<Rightarrow> bool \<Rightarrow> TsClientState" where
  "ts_client_state_init client_id send_fn =
     set_status ''disconnected''
       (zero_client_state\<lparr>
          cs_client_id := snprintf_buf TS_MAX_CLIENT_ID (case client_id of Some c \<Rightarrow> c | None \<Rightarrow> ''u1''),
          cs_content := ts_strdup (Some []),
          cs_version := 0, cs_history_start_version := 0, cs_next_op_number := 1,
          cs_send_fn := send_fn\<rparr>)"

definition ts_client_state_destroy :: "TsClientState option \<Rightarrow> TsClientState option" where
  "ts_client_state_destroy state = map_option (\<lambda>_. zero_client_state) state"

section \<open>The queue and the pump\<close>

text \<open>\<open>realloc_ok\<close> says whether the reallocation succeeds.\<close>

definition ensure_queue_capacity :: "bool \<Rightarrow> TsClientState \<Rightarrow> int \<times> TsClientState" where
  "ensure_queue_capacity realloc_ok state =
     (if cs_queue_len state < cs_queue_cap state then (0, state)
      else if \<not> realloc_ok then (-1, state)
      else (0, state\<lparr>cs_queue_cap := (if cs_queue_cap state = 0 then 8 else cs_queue_cap state * 2)\<rparr>))"

definition push_queue :: "TsPendingOperation \<Rightarrow> TsClientState \<Rightarrow> TsClientState" where
  \<comment> \<open>\<open>state->queue[state->queue_len++] = pending\<close>\<close>
  "push_queue pending state = state\<lparr>cs_queue := cs_queue state @ [pending]\<rparr>"

definition pop_queue :: "TsClientState \<Rightarrow> (TsPendingOperation \<times> TsClientState) option" where
  "pop_queue state =
     (case cs_queue state of
        [] \<Rightarrow> None
      | out # rest \<Rightarrow> Some (out, state\<lparr>cs_queue := rest\<rparr>))"

definition state_pump :: "TsClientState \<Rightarrow> TsClientState \<times> TsMessage list" where
  "state_pump state =
     (if cs_has_inflight state \<or> cs_queue_len state = 0 \<or> \<not> cs_send_fn state then (state, [])
      else case pop_queue state of
        None \<Rightarrow> (state, [])
      | Some (next, state) \<Rightarrow>
          (let next = next\<lparr>po_base_version := cs_version state\<rparr>;
               state = state\<lparr>cs_inflight := next, cs_has_inflight := True\<rparr>;
               message = ts_message_init\<lparr>
                 msg_type := snprintf_buf TS_MAX_TYPE ''OP'',
                 msg_client_id := snprintf_buf TS_MAX_CLIENT_ID (cs_client_id state),
                 msg_op_id := snprintf_buf TS_MAX_OP_ID (po_op_id next),
                 msg_base_version := po_base_version next,
                 msg_op := po_op next, msg_has_op := True\<rparr>
           in (state, [message])))"

definition ts_client_state_set_document ::
  "TsClientState \<Rightarrow> string option \<Rightarrow> int \<Rightarrow> int \<Rightarrow> TsClientState \<times> TsMessage list" where
  "ts_client_state_set_document state content version history_start_version =
     state_pump
       (set_status (''synced at version '' @ show_int version)
         (state\<lparr>cs_content := ts_strdup (Some (case content of Some c \<Rightarrow> c | None \<Rightarrow> [])),
            cs_version := version, cs_history_start_version := history_start_version,
            cs_has_inflight := False\<rparr>))"

definition make_op_id :: "string \<Rightarrow> int \<Rightarrow> string" where
  \<comment> \<open>\<open>"%.48s-%d"\<close> into the 64 bytes of \<open>op_id\<close>\<close>
  "make_op_id client_id number =
     snprintf_buf TS_MAX_OP_ID (take 48 client_id @ ''-'' @ show_int number)"

text \<open>The result is the return code, the identifier copied out, the state and what was sent; the
  increment of \<open>next_op_number\<close> is undefined at \<open>INT_MAX\<close>.\<close>

definition ts_client_state_queue_operation ::
  "bool \<Rightarrow> TsClientState \<Rightarrow> TsOperation \<Rightarrow> (int \<times> string option \<times> TsClientState \<times> TsMessage list) ub" where
  "ts_client_state_queue_operation realloc_ok state op =
     (case ensure_queue_capacity realloc_ok state of (rc, state) \<Rightarrow>
        if rc \<noteq> 0 then Some (-1, None, state, [])
        else do {
          let number = cs_next_op_number state;
          next_number \<leftarrow> c_int_inc number;
          let pending = zero_pending\<lparr>
            po_op_id := make_op_id (cs_client_id state) number,
            po_op := ts_operation_clone op,
            po_base_version := -1\<rparr>;
          let state = push_queue pending (state\<lparr>cs_next_op_number := next_number\<rparr>);
          let state = set_status (''queued '' @ show_nat (cs_queue_len state) @ '' operation(s)'') state;
          let (state, sent) = state_pump state;
          Some (0, Some (po_op_id pending), state, sent)
        })"

section \<open>Messages from the server\<close>

definition apply_authoritative_op :: "TsClientState \<Rightarrow> TsMessage \<Rightarrow> TsClientState ub" where
  "apply_authoritative_op state message =
     (if \<not> msg_has_op message then Some state
      else do {
        updated \<leftarrow> ts_apply_operation_to_text (Some (cs_content state)) (Some (msg_op message));
        let state = state\<lparr>cs_content := updated\<rparr>;
        Some (if msg_version message \<ge> 0 then state\<lparr>cs_version := msg_version message\<rparr> else state)
      })"

definition handle_ack :: "TsClientState \<Rightarrow> TsMessage \<Rightarrow> (TsClientState \<times> TsMessage list) ub" where
  "handle_ack state message =
     (if \<not> cs_has_inflight state \<or> po_op_id (cs_inflight state) \<noteq> msg_op_id message then
        Some (set_status (''ignored stale ACK '' @ msg_op_id message) state, [])
      else do {
        state \<leftarrow> apply_authoritative_op state message;
        let state = state\<lparr>cs_has_inflight := False\<rparr>;
        let state = set_status (''ACK '' @ msg_op_id message @ '' at version '' @
          show_int (cs_version state)) state;
        Some (state_pump state)
      })"

definition request_doc :: TsMessage where
  "request_doc = ts_message_init\<lparr>msg_type := snprintf_buf TS_MAX_TYPE ''REQUEST_DOC''\<rparr>"

definition handle_remote :: "TsClientState \<Rightarrow> TsMessage \<Rightarrow> (TsClientState \<times> TsMessage list) ub" where
  "handle_remote state message =
     (let incoming_version = msg_version message in
      if incoming_version \<le> cs_version state then Some (state, [])
      else if incoming_version \<noteq> cs_version state + 1 then
        (let state = set_status ''missed remote operation; requesting document'' state in
         if cs_send_fn state then Some (state, [request_doc]) else None)
      else do {
        state \<leftarrow> apply_authoritative_op state message;
        Some (set_status (''remote op at version '' @ show_int (cs_version state)) state, [])
      })"

definition ts_client_state_handle_message ::
  "TsClientState \<Rightarrow> TsMessage \<Rightarrow> (TsClientState \<times> TsMessage list) ub" where
  "ts_client_state_handle_message state message =
     (if msg_type message = ''DOC_STATE'' then
        Some (ts_client_state_set_document state
          (Some (case msg_content message of Some c \<Rightarrow> c | None \<Rightarrow> []))
          (if msg_version message < 0 then 0 else msg_version message)
          (if msg_history_start_version message < 0 then 0 else msg_history_start_version message))
      else if msg_type message = ''WELCOME'' then
        (let state = (if msg_client_id message \<noteq> []
           then state\<lparr>cs_client_id := snprintf_buf TS_MAX_CLIENT_ID (msg_client_id message)\<rparr>
           else state)
         in Some (set_status (''connected as '' @ cs_client_id state) state, []))
      else if msg_type message = ''ACK'' then handle_ack state message
      else if msg_type message = ''REMOTE_OP'' then handle_remote state message
      else if msg_type message = ''RESYNC_REQUIRED'' then
        (let state = set_status ''server requested resync'' (state\<lparr>cs_has_inflight := False\<rparr>) in
         if cs_send_fn state then Some (state, [request_doc]) else None)
      else if msg_type message = ''SAVE_QUEUED'' then
        Some (set_status (''save queued at version '' @ show_int (msg_version message)) state, [])
      else if msg_type message = ''ERROR'' then
        Some (set_status (''error: '' @ take 140 (msg_message message)) state, [])
      else Some (state, []))"

end
