(* ===== verification/ClientState_Correct.thy ===== *)
theory ClientState_Correct
  imports ClientState
begin

text \<open>
  Properties of the client: the queue is a FIFO queue, identifiers are never reused, every
  operation of the user is sent once and in order whatever the server answers, at most one is
  in flight, and the replica takes exactly the next version from a broadcast.
\<close>

section \<open>The pending queue is a FIFO queue\<close>

interpretation client_queue: fifo cs_queue "\<lambda>_. True" push_queue pop_queue
  by unfold_locales (auto simp: push_queue_def pop_queue_def)

section \<open>Operation identifiers\<close>

lemma make_op_id_fits:
  assumes "0 \<le> n" and "n \<le> c_int_max"
  shows "make_op_id c n = take 48 c @ ''-'' @ show_nat (nat n)" "length (make_op_id c n) < 64"
proof -
  have "length (show_nat (nat n)) \<le> 10"
    using assms by (intro length_show_nat) (auto simp: c_int_max_def)
  then have l: "length (take 48 c @ ''-'' @ show_nat (nat n)) < 64" by simp
  with assms show "make_op_id c n = take 48 c @ ''-'' @ show_nat (nat n)"
    by (simp add: make_op_id_def show_int_def ts_sizes snprintf_buf_def)
  with l show "length (make_op_id c n) < 64" by simp
qed

lemma split_last_dash:
  assumes "xs @ d # as = ys @ d # bs" and "d \<notin> set as" and "d \<notin> set bs"
  shows "as = bs"
  using assms by (auto simp: append_eq_append_conv2 Cons_eq_append_conv append_eq_Cons_conv)

lemma make_op_id_inj:
  assumes "make_op_id c m = make_op_id d n" and "0 \<le> m" "m \<le> c_int_max" "0 \<le> n" "n \<le> c_int_max"
  shows "m = n"
proof -
  from assms have "take 48 c @ CHR ''-'' # show_nat (nat m) = take 48 d @ CHR ''-'' # show_nat (nat n)"
    by (simp add: make_op_id_fits)
  from split_last_dash [OF this show_nat_no_dash show_nat_no_dash] have "nat m = nat n"
    by (rule show_nat_inj)
  with assms show ?thesis by simp
qed

section \<open>The pump\<close>

definition op_message :: "TsClientState \<Rightarrow> TsPendingOperation \<Rightarrow> TsMessage" where
  "op_message state p = ts_message_init\<lparr>
     msg_type := ''OP'',
     msg_client_id := snprintf_buf TS_MAX_CLIENT_ID (cs_client_id state),
     msg_op_id := snprintf_buf TS_MAX_OP_ID (po_op_id p),
     msg_base_version := cs_version state,
     msg_op := po_op p, msg_has_op := True\<rparr>"

lemma pump_idle:
  "cs_has_inflight s \<or> cs_queue s = [] \<or> \<not> cs_send_fn s \<Longrightarrow> state_pump s = (s, [])"
  by (auto simp: state_pump_def cs_queue_len_def)

lemma pump_sends:
  "\<not> cs_has_inflight s \<Longrightarrow> cs_queue s = p # ps \<Longrightarrow> cs_send_fn s \<Longrightarrow>
    state_pump s = (s\<lparr>cs_queue := ps, cs_inflight := p\<lparr>po_base_version := cs_version s\<rparr>,
      cs_has_inflight := True\<rparr>, [op_message s p])"
  by (simp add: state_pump_def cs_queue_len_def pop_queue_def op_message_def Let_def ts_sizes snprintf_buf_def)

lemma pump_cases:
  obtains (idle) "state_pump s = (s, [])" "cs_has_inflight s \<or> cs_queue s = [] \<or> \<not> cs_send_fn s"
  | (send) p ps where "\<not> cs_has_inflight s" "cs_queue s = p # ps" "cs_send_fn s"
      "state_pump s = (s\<lparr>cs_queue := ps, cs_inflight := p\<lparr>po_base_version := cs_version s\<rparr>,
        cs_has_inflight := True\<rparr>, [op_message s p])"
proof (cases "cs_has_inflight s \<or> cs_queue s = [] \<or> \<not> cs_send_fn s")
  case True
  then show ?thesis using idle pump_idle by blast
next
  case False
  then obtain p ps where "cs_queue s = p # ps" by (cases "cs_queue s") auto
  with False send pump_sends show ?thesis by blast
qed

lemma pump_frame:
  "cs_client_id (fst (state_pump s)) = cs_client_id s"
  "cs_content (fst (state_pump s)) = cs_content s"
  "cs_version (fst (state_pump s)) = cs_version s"
  "cs_queue_cap (fst (state_pump s)) = cs_queue_cap s"
  "cs_next_op_number (fst (state_pump s)) = cs_next_op_number s"
  "cs_send_fn (fst (state_pump s)) = cs_send_fn s"
  by (cases rule: pump_cases [of s]; simp)+

section \<open>What one call sends\<close>

datatype client_event = UserOp bool TsOperation | FromServer TsMessage

text \<open>The result of one call: the new state, the messages sent, the identifier assigned.\<close>

definition client_call :: "client_event \<Rightarrow> TsClientState \<Rightarrow> (TsClientState \<times> TsMessage list \<times> string list) ub" where
  "client_call e s =
     (case e of
        UserOp mem op \<Rightarrow>
          (case ts_client_state_queue_operation mem s op of
             None \<Rightarrow> None
           | Some (rc, oid, s', sent) \<Rightarrow> Some (s', sent, case oid of None \<Rightarrow> [] | Some i \<Rightarrow> [i]))
      | FromServer m \<Rightarrow>
          (case ts_client_state_handle_message s m of
             None \<Rightarrow> None
           | Some (s', sent) \<Rightarrow> Some (s', sent, [])))"

definition op_ids :: "TsMessage list \<Rightarrow> string list" where
  "op_ids ms = map msg_op_id (filter (\<lambda>m. msg_type m = ''OP'') ms)"

lemma op_ids_simps [simp]:
  "op_ids [] = []" "op_ids (a @ b) = op_ids a @ op_ids b"
  "op_ids [request_doc] = []"
  "op_ids [op_message s p] = [snprintf_buf TS_MAX_OP_ID (po_op_id p)]"
  by (simp_all add: op_ids_def request_doc_def op_message_def ts_sizes snprintf_buf_def)

text \<open>The invariant of the send side: the identifiers in the queue fit their buffer, the counter
  has not overflowed, the queue fits its array and the callback is set.\<close>

definition wf_client :: "TsClientState \<Rightarrow> bool" where
  "wf_client s \<longleftrightarrow>
     cs_send_fn s \<and> 1 \<le> cs_next_op_number s \<and> cs_next_op_number s \<le> c_int_max \<and>
     cs_queue_len s \<le> cs_queue_cap s \<and>
     list_all (\<lambda>p. length (po_op_id p) < TS_MAX_OP_ID) (cs_queue s)"

lemma wf_client_init: "wf_client (ts_client_state_init cid True)"
  by (simp add: wf_client_def ts_client_state_init_def zero_client_state_def c_int_max_def cs_queue_len_def)

text \<open>\<open>keeps s s'\<close>: nothing of the send side changed but the in-flight slot.\<close>

definition keeps :: "TsClientState \<Rightarrow> TsClientState \<Rightarrow> bool" where
  "keeps s s' \<longleftrightarrow> cs_queue s' = cs_queue s \<and> cs_queue_cap s' = cs_queue_cap s \<and>
     cs_next_op_number s' = cs_next_op_number s \<and> cs_send_fn s' = cs_send_fn s"

lemma keeps_wf: "keeps s s' \<Longrightarrow> wf_client s' = wf_client s"
  by (simp add: keeps_def wf_client_def cs_queue_len_def)

lemma keeps_simps [simp]:
  "keeps s s"
  "keeps s (set_status m t) = keeps s t"
  "keeps s (t\<lparr>cs_content := c\<rparr>) = keeps s t"
  "keeps s (t\<lparr>cs_version := v\<rparr>) = keeps s t"
  "keeps s (t\<lparr>cs_history_start_version := v\<rparr>) = keeps s t"
  "keeps s (t\<lparr>cs_has_inflight := b\<rparr>) = keeps s t"
  "keeps s (t\<lparr>cs_client_id := i\<rparr>) = keeps s t"
  by (simp_all add: keeps_def)

lemma pump_wf: "wf_client s \<Longrightarrow> wf_client (fst (state_pump s))"
  by (cases rule: pump_cases [of s]) (auto simp: wf_client_def cs_queue_len_def)

lemma pump_ids:
  assumes "wf_client s"
  shows "op_ids (snd (state_pump s)) @ map po_op_id (cs_queue (fst (state_pump s))) = map po_op_id (cs_queue s)"
  using assms by (cases rule: pump_cases [of s]) (auto simp: wf_client_def)

lemma apply_authoritative_keeps:
  "apply_authoritative_op s m = Some s' \<Longrightarrow> keeps s s'"
  by (auto simp: apply_authoritative_op_def Let_def split: if_splits bind_splits)

lemma handle_ack_cases:
  assumes "handle_ack s m = Some (s', sent)"
  obtains (stale) msg where "s' = set_status msg s" "sent = []"
    "\<not> cs_has_inflight s \<or> po_op_id (cs_inflight s) \<noteq> msg_op_id m"
  | (matched) t msg where "cs_has_inflight s \<and> po_op_id (cs_inflight s) = msg_op_id m"
      "apply_authoritative_op s m = Some t"
      "(s', sent) = state_pump (set_status msg (t\<lparr>cs_has_inflight := False\<rparr>))"
proof (cases "\<not> cs_has_inflight s \<or> po_op_id (cs_inflight s) \<noteq> msg_op_id m")
  case True
  with assms show ?thesis by (intro stale) (auto simp: handle_ack_def)
next
  case False
  with assms obtain t where "apply_authoritative_op s m = Some t"
    "(s', sent) = state_pump (set_status (''ACK '' @ msg_op_id m @ '' at version '' @
       show_int (cs_version t)) (t\<lparr>cs_has_inflight := False\<rparr>))"
    by (auto simp: handle_ack_def Let_def split: bind_splits)
  with False show ?thesis by (intro matched) auto
qed

lemma set_document_pump:
  "\<exists>t. ts_client_state_set_document s (Some c) v h = state_pump t \<and> keeps s t \<and>
    \<not> cs_has_inflight t \<and> cs_content t = c \<and> cs_version t = v"
  unfolding ts_client_state_set_document_def by (rule exI, rule conjI [OF refl]) simp

text \<open>Every answer to a message either sends nothing or \<open>REQUEST_DOC\<close> and keeps the queue, or ends
  in the pump.\<close>

lemma handle_cases:
  assumes "ts_client_state_handle_message s m = Some (s', sent)"
  obtains (quiet) "keeps s s'" "op_ids sent = []" "length sent \<le> 1"
  | (pumped) t where "keeps s t" "\<not> cs_has_inflight t" "(s', sent) = state_pump t"
      "msg_type m = ''DOC_STATE'' \<or> msg_type m = ''ACK'' \<and> po_op_id (cs_inflight s) = msg_op_id m"
proof -
  consider (doc) "msg_type m = ''DOC_STATE''" | (ack) "msg_type m = ''ACK''"
    | (other) "msg_type m \<noteq> ''DOC_STATE''" "msg_type m \<noteq> ''ACK''" by blast
  then show ?thesis
  proof cases
    case doc
    with assms obtain c v h where "ts_client_state_set_document s (Some c) v h = (s', sent)"
      by (simp add: ts_client_state_handle_message_def)
    with set_document_pump [of s c v h] obtain t where
      "keeps s t" "\<not> cs_has_inflight t" "(s', sent) = state_pump t" by metis
    with doc show ?thesis by (intro pumped) auto
  next
    case ack
    with assms have "handle_ack s m = Some (s', sent)"
      by (simp add: ts_client_state_handle_message_def)
    then show ?thesis
    proof (cases rule: handle_ack_cases)
      case stale
      then show ?thesis by (intro quiet) simp_all
    next
      case (matched t msg)
      from apply_authoritative_keeps [OF matched(2)]
      have "keeps s (set_status msg (t\<lparr>cs_has_inflight := False\<rparr>))" by simp
      with matched ack show ?thesis by (intro pumped) auto
    qed
  next
    case other
    with assms have "keeps s s' \<and> op_ids sent = [] \<and> length sent \<le> 1"
      by (auto simp: ts_client_state_handle_message_def handle_remote_def Let_def
          split: if_splits bind_splits dest!: apply_authoritative_keeps)
    then show ?thesis by (intro quiet) simp_all
  qed
qed

section \<open>Queueing an operation\<close>

text \<open>The state in which \<open>ts_client_state_queue_operation\<close> reaches the pump.\<close>

definition new_pending :: "TsClientState \<Rightarrow> TsOperation \<Rightarrow> TsPendingOperation" where
  "new_pending s op =
     \<lparr>po_op_id = make_op_id (cs_client_id s) (cs_next_op_number s), po_op = op, po_base_version = -1\<rparr>"

definition queued_state :: "TsClientState \<Rightarrow> TsOperation \<Rightarrow> TsClientState" where
  "queued_state s op =
     set_status (''queued '' @ show_nat (Suc (cs_queue_len s)) @ '' operation(s)'')
       (push_queue (new_pending s op)
         (s\<lparr>cs_queue_cap := (if cs_queue_len s < cs_queue_cap s then cs_queue_cap s
              else if cs_queue_cap s = 0 then 8 else cs_queue_cap s * 2),
            cs_next_op_number := cs_next_op_number s + 1\<rparr>))"

lemma queue_operation_eq:
  "ts_client_state_queue_operation mem s op =
     (if cs_queue_len s \<ge> cs_queue_cap s \<and> \<not> mem then Some (-1, None, s, [])
      else if cs_next_op_number s < c_int_max then
        Some (0, Some (po_op_id (new_pending s op)), fst (state_pump (queued_state s op)),
          snd (state_pump (queued_state s op)))
      else None)"
  by (auto simp: ts_client_state_queue_operation_def ensure_queue_capacity_def Let_def c_int_inc_def
      zero_pending_def new_pending_def queued_state_def push_queue_def cs_queue_len_def set_status_def
      split: prod.splits)

lemma queued_state_simps [simp]:
  "cs_queue (queued_state s op) = cs_queue s @ [new_pending s op]"
  "cs_next_op_number (queued_state s op) = cs_next_op_number s + 1"
  "cs_has_inflight (queued_state s op) = cs_has_inflight s"
  "cs_inflight (queued_state s op) = cs_inflight s"
  "cs_content (queued_state s op) = cs_content s"
  "cs_version (queued_state s op) = cs_version s"
  "cs_client_id (queued_state s op) = cs_client_id s"
  "cs_send_fn (queued_state s op) = cs_send_fn s"
  by (simp_all add: queued_state_def push_queue_def)

lemma new_pending_simps [simp]:
  "po_op_id (new_pending s op) = make_op_id (cs_client_id s) (cs_next_op_number s)"
  "po_op (new_pending s op) = op"
  by (simp_all add: new_pending_def)

lemma queued_state_wf:
  "wf_client s \<Longrightarrow> cs_next_op_number s < c_int_max \<Longrightarrow> wf_client (queued_state s op)"
  using make_op_id_fits(2) [of "cs_next_op_number s" "cs_client_id s"]
  by (auto simp: wf_client_def cs_queue_len_def queued_state_def push_queue_def ts_sizes)

section \<open>Runs of the client\<close>

type_synonym client_run = "TsClientState \<times> TsMessage list \<times> string list"

definition client_step :: "client_event \<Rightarrow> client_run \<Rightarrow> client_run option" where
  "client_step e r =
     (case r of (s, out, ids) \<Rightarrow>
        map_option (\<lambda>(s', sent, new). (s', out @ sent, ids @ new)) (client_call e s))"

text \<open>Every identifier assigned so far is either sent or waiting in the queue, in the order of
  assignment, and the \<open>k\<close>-th one carries the number \<open>k\<close>.\<close>

definition send_inv :: "client_run \<Rightarrow> bool" where
  "send_inv r \<longleftrightarrow> (case r of (s, out, ids) \<Rightarrow>
     wf_client s \<and> op_ids out @ map po_op_id (cs_queue s) = ids \<and>
     cs_next_op_number s = int (length ids) + 1 \<and>
     (\<forall>k < length ids. \<exists>c. ids ! k = make_op_id c (int k + 1)))"

lemma client_step_inv:
  assumes inv: "send_inv r" and step: "client_step e r = Some r'"
  shows "send_inv r'"
proof -
  obtain s out ids where r: "r = (s, out, ids)" by (cases r)
  from inv r have wf: "wf_client s" and ids: "op_ids out @ map po_op_id (cs_queue s) = ids"
    and num: "cs_next_op_number s = int (length ids) + 1"
    and named: "\<forall>k < length ids. \<exists>c. ids ! k = make_op_id c (int k + 1)"
    by (auto simp: send_inv_def)
  show ?thesis
  proof (cases e)
    case (UserOp mem op)
    show ?thesis
    proof (cases "cs_queue_len s \<ge> cs_queue_cap s \<and> \<not> mem")
      case True
      with UserOp step r inv show ?thesis
        by (auto simp: client_step_def client_call_def queue_operation_eq)
    next
      case False
      let ?t = "queued_state s op" and ?id = "po_op_id (new_pending s op)"
      from False UserOp step r have lt: "cs_next_op_number s < c_int_max"
        and r': "r' = (fst (state_pump ?t), out @ snd (state_pump ?t), ids @ [?id])"
        by (auto simp: client_step_def client_call_def queue_operation_eq split: if_splits prod.splits)
      have wt: "wf_client ?t" using wf lt by (rule queued_state_wf)
      have "op_ids (snd (state_pump ?t)) @ map po_op_id (cs_queue (fst (state_pump ?t))) =
          map po_op_id (cs_queue s) @ [?id]"
        using pump_ids [OF wt] by simp
      moreover have "\<exists>c. (ids @ [?id]) ! k = make_op_id c (int k + 1)" if "k < length (ids @ [?id])" for k
        using that named num by (cases "k < length ids") (auto simp: nth_append less_Suc_eq)
      ultimately show ?thesis
        using r' wt ids num by (simp add: send_inv_def pump_wf pump_frame)
    qed
  next
    case (FromServer m)
    with step r obtain s' sent where h: "ts_client_state_handle_message s m = Some (s', sent)"
      and r': "r' = (s', out @ sent, ids)"
      by (auto simp: client_step_def client_call_def split: option.splits)
    from h show ?thesis
    proof (cases rule: handle_cases)
      case quiet
      with r' wf ids num named keeps_wf [of s s'] show ?thesis
        by (simp add: send_inv_def keeps_def)
    next
      case (pumped t)
      from wf pumped(1) have wt: "wf_client t" by (simp add: keeps_wf)
      from pumped(1) have "cs_queue t = cs_queue s" "cs_next_op_number t = cs_next_op_number s"
        by (simp_all add: keeps_def)
      with pump_ids [OF wt] pump_wf [OF wt] pump_frame [of t] pumped(3) ids num named r' show ?thesis
        by (cases "state_pump t") (auto simp: send_inv_def)
    qed
  qed
qed

interpretation client: inv_machine client_step send_inv "\<lambda>_. True"
  by unfold_locales (rule client_step_inv)

lemma send_inv_init: "send_inv (ts_client_state_init cid True, [], [])"
  using wf_client_init [of cid]
  by (simp add: send_inv_def ts_client_state_init_def zero_client_state_def)

lemma send_inv_distinct:
  assumes "send_inv (s, out, ids)"
  shows "distinct ids"
  unfolding distinct_conv_nth
proof (intro allI impI)
  fix i j assume ij: "i < length ids" "j < length ids" "i \<noteq> j"
  from assms ij obtain c d where c: "ids ! i = make_op_id c (int i + 1)" "ids ! j = make_op_id d (int j + 1)"
    unfolding send_inv_def by blast
  from assms have "int (length ids) + 1 \<le> c_int_max" by (auto simp: send_inv_def wf_client_def)
  with make_op_id_inj [of c "int i + 1" d "int j + 1"] c ij show "ids ! i \<noteq> ids ! j" by auto
qed

text \<open>C5: Whatever the server answers and however the user's operations are interleaved with it,
  the operations leave the client in the order they were queued: the identifiers of the \<open>OP\<close>
  messages sent, followed by those still waiting, are exactly the identifiers handed out, and no
  identifier is handed out twice.\<close>

theorem operations_sent_in_order:
  assumes "run_ops client_step es (ts_client_state_init cid True, [], []) = Some (s, out, ids)"
  shows "op_ids out @ map po_op_id (cs_queue s) = ids \<and> distinct ids"
proof -
  have "list_all (\<lambda>_. True) es" by (simp add: list_all_iff)
  from client.run_inv [OF send_inv_init this assms] have "send_inv (s, out, ids)" .
  with send_inv_distinct show ?thesis by (auto simp: send_inv_def)
qed

section \<open>At most one operation in flight\<close>

lemma op_ids_Nil: "op_ids ms = [] \<Longrightarrow> m \<in> set ms \<Longrightarrow> msg_type m \<noteq> ''OP''"
  by (induction ms) (auto simp: op_ids_def split: if_splits)

lemma pump_message:
  assumes "m \<in> set (snd (state_pump t))"
  shows "\<not> cs_has_inflight t \<and> cs_has_inflight (fst (state_pump t)) \<and>
    msg_op m = po_op (cs_inflight (fst (state_pump t))) \<and>
    msg_base_version m = cs_version (fst (state_pump t))"
  using assms by (cases rule: pump_cases [of t]) (auto simp: op_message_def)

lemma pump_length: "length (snd (state_pump t)) \<le> 1"
  by (cases rule: pump_cases [of t]) auto

text \<open>C21: One call sends at most one message; an \<open>OP\<close> message is sent only when no operation was in
  flight, or the message being handled acknowledged it or replaced the document; and it becomes the
  operation in flight, based on the version the replica has at that moment.\<close>

theorem one_operation_in_flight:
  assumes "client_call e s = Some (s', sent, new)"
  shows "length sent \<le> 1 \<and> (\<forall>m \<in> set sent. msg_type m = ''OP'' \<longrightarrow>
    cs_has_inflight s' \<and> msg_op m = po_op (cs_inflight s') \<and> msg_base_version m = cs_version s' \<and>
    (\<not> cs_has_inflight s \<or> (\<exists>a. e = FromServer a \<and> (msg_type a = ''DOC_STATE'' \<or>
        msg_type a = ''ACK'' \<and> po_op_id (cs_inflight s) = msg_op_id a))))"
proof (cases e)
  case (UserOp mem op)
  let ?t = "queued_state s op"
  from UserOp assms have "sent = [] \<or> s' = fst (state_pump ?t) \<and> sent = snd (state_pump ?t)"
    by (auto simp: client_call_def queue_operation_eq split: if_splits prod.splits)
  with pump_message [of _ ?t] pump_length [of ?t] show ?thesis by auto
next
  case (FromServer a)
  with assms have "ts_client_state_handle_message s a = Some (s', sent)"
    by (auto simp: client_call_def split: option.splits)
  then show ?thesis
  proof (cases rule: handle_cases)
    case quiet
    with op_ids_Nil show ?thesis by blast
  next
    case (pumped t)
    with pump_message [of _ t] pump_length [of t] FromServer show ?thesis
      by (cases "state_pump t") auto
  qed
qed

section \<open>The replica\<close>

lemma apply_authoritative_eq:
  assumes "valid_utf8 (cs_content s)" and "good_op (msg_op m)" and "msg_has_op m" and "0 \<le> msg_version m"
  obtains t where "apply_authoritative_op s m = Some (s\<lparr>cs_content := t, cs_version := msg_version m\<rparr>)"
    and "valid_utf8 t" and "utf8_chars t = apply_edit (edit_of (msg_op m)) (utf8_chars (cs_content s))"
proof -
  from utf8.apply_chars [OF assms(1,2)] obtain t where
    "ts_apply_operation_to_text (Some (cs_content s)) (Some (msg_op m)) = Some t" "valid_utf8 t"
    "utf8_chars t = apply_edit (edit_of (msg_op m)) (utf8_chars (cs_content s))" by blast
  with assms(3,4) that show ?thesis by (simp add: apply_authoritative_op_def Let_def)
qed

lemma handle_remote_next:
  assumes "valid_utf8 (cs_content s)" and "good_op (msg_op m)" and "msg_has_op m"
    and "0 \<le> cs_version s" and "msg_type m = ''REMOTE_OP''" and "msg_version m = cs_version s + 1"
  obtains s' where "ts_client_state_handle_message s m = Some (s', [])" and "valid_utf8 (cs_content s')"
    and "utf8_chars (cs_content s') = apply_edit (edit_of (msg_op m)) (utf8_chars (cs_content s))"
    and "cs_version s' = cs_version s + 1" and "keeps s s'"
    and "cs_has_inflight s' = cs_has_inflight s" and "cs_inflight s' = cs_inflight s"
proof -
  from assms(4,6) have "0 \<le> msg_version m" by simp
  from apply_authoritative_eq [OF assms(1-3) this] obtain t where t:
    "apply_authoritative_op s m = Some (s\<lparr>cs_content := t, cs_version := msg_version m\<rparr>)"
    "valid_utf8 t" "utf8_chars t = apply_edit (edit_of (msg_op m)) (utf8_chars (cs_content s))" by blast
  let ?s = "set_status (''remote op at version '' @ show_int (msg_version m))
    (s\<lparr>cs_content := t, cs_version := msg_version m\<rparr>)"
  have "ts_client_state_handle_message s m = Some (?s, [])"
    using t assms(5,6) by (simp add: ts_client_state_handle_message_def handle_remote_def Let_def)
  with t assms(6) that show ?thesis by simp
qed

text \<open>C19: A broadcast operation is applied to the replica exactly when it carries the version after
  the replica's; an old one changes nothing, and after a gap the replica keeps its text and version
  and asks for the document.\<close>

theorem remote_operation_applies_next_version:
  assumes "valid_utf8 (cs_content s)" and "good_op (msg_op m)" and "msg_has_op m" and "cs_send_fn s"
    and "0 \<le> cs_version s" and "msg_type m = ''REMOTE_OP''"
  shows "\<exists>s' sent. ts_client_state_handle_message s m = Some (s', sent) \<and>
    cs_queue s' = cs_queue s \<and> cs_has_inflight s' = cs_has_inflight s \<and>
    (if msg_version m \<le> cs_version s then s' = s \<and> sent = []
     else if msg_version m = cs_version s + 1 then
       sent = [] \<and> cs_version s' = msg_version m \<and> valid_utf8 (cs_content s') \<and>
       utf8_chars (cs_content s') = apply_edit (edit_of (msg_op m)) (utf8_chars (cs_content s))
     else map msg_type sent = [''REQUEST_DOC''] \<and> cs_content s' = cs_content s \<and>
       cs_version s' = cs_version s)"
proof (cases "msg_version m = cs_version s + 1")
  case True
  from handle_remote_next [OF assms(1-3,5,6) True] True show ?thesis by (force simp: keeps_def)
next
  case False
  with assms(4,6) show ?thesis
    by (auto simp: ts_client_state_handle_message_def handle_remote_def Let_def request_doc_def
        snprintf_buf_def ts_sizes)
qed

text \<open>The acknowledgement of the operation in flight leads to the pump.\<close>

lemma ack_pump:
  assumes "valid_utf8 (cs_content s)" and "good_op (msg_op m)" and "msg_has_op m"
    and "0 \<le> msg_version m" and "msg_type m = ''ACK''"
    and "cs_has_inflight s" and "po_op_id (cs_inflight s) = msg_op_id m"
  obtains u where "ts_client_state_handle_message s m = Some (state_pump u)"
    and "valid_utf8 (cs_content u)" and "cs_version u = msg_version m"
    and "utf8_chars (cs_content u) = apply_edit (edit_of (msg_op m)) (utf8_chars (cs_content s))"
    and "\<not> cs_has_inflight u" and "keeps s u"
proof -
  from apply_authoritative_eq [OF assms(1-4)] obtain t where t:
    "apply_authoritative_op s m = Some (s\<lparr>cs_content := t, cs_version := msg_version m\<rparr>)"
    "valid_utf8 t" "utf8_chars t = apply_edit (edit_of (msg_op m)) (utf8_chars (cs_content s))" by blast
  let ?u = "set_status (''ACK '' @ msg_op_id m @ '' at version '' @ show_int (msg_version m))
    (s\<lparr>cs_content := t, cs_version := msg_version m, cs_has_inflight := False\<rparr>)"
  have "ts_client_state_handle_message s m = Some (state_pump ?u)"
    using t assms(5-7) by (simp add: ts_client_state_handle_message_def handle_ack_def Let_def)
  with t show ?thesis by (intro that [of ?u]) simp_all
qed

lemma acknowledged:
  assumes "valid_utf8 (cs_content s)" and "good_op (msg_op m)" and "msg_has_op m" and "cs_send_fn s"
    and "0 \<le> msg_version m" and "msg_type m = ''ACK''"
    and "cs_has_inflight s \<and> po_op_id (cs_inflight s) = msg_op_id m"
  shows "\<exists>s' sent. ts_client_state_handle_message s m = Some (s', sent) \<and>
    valid_utf8 (cs_content s') \<and> cs_version s' = msg_version m \<and>
    utf8_chars (cs_content s') = apply_edit (edit_of (msg_op m)) (utf8_chars (cs_content s)) \<and>
    (case cs_queue s of
       [] \<Rightarrow> sent = [] \<and> \<not> cs_has_inflight s'
     | p # ps \<Rightarrow> cs_queue s' = ps \<and> cs_has_inflight s' \<and> po_op (cs_inflight s') = po_op p \<and>
         map msg_op sent = [po_op p] \<and> map msg_base_version sent = [msg_version m])"
proof -
  from ack_pump [OF assms(1-3,5,6), of] assms(7) obtain u where
    h: "ts_client_state_handle_message s m = Some (state_pump u)"
    and u: "valid_utf8 (cs_content u)" "cs_version u = msg_version m"
      "utf8_chars (cs_content u) = apply_edit (edit_of (msg_op m)) (utf8_chars (cs_content s))"
      "\<not> cs_has_inflight u" "keeps s u" by blast
  then have q: "cs_queue u = cs_queue s" "cs_send_fn u" using assms(4) by (simp_all add: keeps_def)
  show ?thesis
  proof (cases "cs_queue s")
    case Nil
    with q have "state_pump u = (u, [])" by (intro pump_idle) simp
    with h u Nil show ?thesis by simp
  next
    case (Cons p ps)
    with u q have "state_pump u = (u\<lparr>cs_queue := ps, cs_inflight := p\<lparr>po_base_version := cs_version u\<rparr>,
        cs_has_inflight := True\<rparr>, [op_message u p])" by (intro pump_sends) simp_all
    with h u Cons show ?thesis by (simp add: op_message_def)
  qed
qed

text \<open>C20: An acknowledgement of the operation in flight applies the server's version of the operation,
  takes over its version number and sends the next queued operation on that version; any other
  acknowledgement changes only the status line.\<close>

theorem acknowledgement_applies_and_sends_next:
  assumes "valid_utf8 (cs_content s)" and "good_op (msg_op m)" and "msg_has_op m" and "cs_send_fn s"
    and "0 \<le> msg_version m" and "msg_type m = ''ACK''"
  shows "\<exists>s' sent. ts_client_state_handle_message s m = Some (s', sent) \<and>
    (if cs_has_inflight s \<and> po_op_id (cs_inflight s) = msg_op_id m then
       valid_utf8 (cs_content s') \<and> cs_version s' = msg_version m \<and>
       utf8_chars (cs_content s') = apply_edit (edit_of (msg_op m)) (utf8_chars (cs_content s)) \<and>
       (case cs_queue s of
          [] \<Rightarrow> sent = [] \<and> \<not> cs_has_inflight s'
        | p # ps \<Rightarrow> cs_queue s' = ps \<and> cs_has_inflight s' \<and> po_op (cs_inflight s') = po_op p \<and>
            map msg_op sent = [po_op p] \<and> map msg_base_version sent = [msg_version m])
     else sent = [] \<and> (\<exists>status. s' = set_status status s))"
proof (cases "cs_has_inflight s \<and> po_op_id (cs_inflight s) = msg_op_id m")
  case True
  with acknowledged [OF assms True] show ?thesis by auto
next
  case False
  with assms(6) show ?thesis by (auto simp: ts_client_state_handle_message_def handle_ack_def)
qed

section \<open>A concrete client\<close>

definition example_client :: TsClientState where
  "example_client =
     \<lparr>cs_client_id = ''u1'', cs_content = ''abc'', cs_version = 0, cs_history_start_version = 0,
      cs_queue = [\<lparr>po_op_id = ''u1-2'', po_op = ts_operation_init TS_OP_DELETE 0 None, po_base_version = -1\<rparr>],
      cs_queue_cap = 8, cs_has_inflight = True,
      cs_inflight = \<lparr>po_op_id = ''u1-1'', po_op = ts_operation_init TS_OP_INSERT 0 (Some ''x''),
        po_base_version = 0\<rparr>,
      cs_next_op_number = 3, cs_status = ''queued 1 operation(s)'', cs_send_fn = True\<rparr>"

definition example_update :: "string \<Rightarrow> int \<Rightarrow> TsMessage" where
  "example_update ty v = ts_message_init\<lparr>msg_type := ty, msg_op_id := ''u1-1'', msg_version := v,
     msg_op := ts_operation_init TS_OP_INSERT 0 (Some ''x''), msg_has_op := True\<rparr>"

lemma ascii_abc: "list_all is_ascii ''abc''" "is_ascii CHR ''x''"
  by (simp_all add: is_ascii_def byte_val_def)

lemma example_client_simps:
  "valid_utf8 (cs_content example_client)" "good_op (msg_op (example_update ty v))"
  "msg_has_op (example_update ty v)" "cs_send_fn example_client" "0 \<le> cs_version example_client"
  "msg_type (example_update ty v) = ty" "msg_version (example_update ty v) = v"
  "utf8_chars (cs_content example_client) = [''a'', ''b'', ''c'']"
  "edit_of (msg_op (example_update ty v)) = Ins 0 ''x''"
  "cs_version example_client = 0" "cs_has_inflight example_client"
  "po_op_id (cs_inflight example_client) = ''u1-1''" "msg_op_id (example_update ty v) = ''u1-1''"
  "cs_queue example_client =
     [\<lparr>po_op_id = ''u1-2'', po_op = ts_operation_init TS_OP_DELETE 0 None, po_base_version = -1\<rparr>]"
  using valid_utf8_ascii [OF ascii_abc(1)] utf8_chars_ascii [OF ascii_abc(1)] utf8_char_ascii [OF ascii_abc(2)]
  by (simp_all add: example_client_def example_update_def good_op_def ts_operation_init_eq edit_of_def)

theorem operations_sent_in_order_witness:
  "\<exists>s out ids. run_ops client_step
      [UserOp True (ts_operation_init TS_OP_INSERT 0 (Some ''x'')),
       UserOp True (ts_operation_init TS_OP_DELETE 0 None)]
      (ts_client_state_init (Some ''u1'') True, [], []) = Some (s, out, ids) \<and>
    length ids = 2 \<and> length out = 1 \<and> op_ids out @ map po_op_id (cs_queue s) = ids \<and> distinct ids"
proof -
  let ?es = "[UserOp True (ts_operation_init TS_OP_INSERT 0 (Some ''x'')),
       UserOp True (ts_operation_init TS_OP_DELETE 0 None)]"
  have "\<exists>s out ids. run_ops client_step ?es (ts_client_state_init (Some ''u1'') True, [], []) =
      Some (s, out, ids) \<and> length ids = 2 \<and> length out = 1"
    by (simp add: client_step_def client_call_def queue_operation_eq ts_client_state_init_def
        zero_client_state_def c_int_max_def pump_sends pump_idle split: prod.splits)
  with operations_sent_in_order [of ?es "Some ''u1''"] show ?thesis by blast
qed

theorem one_operation_in_flight_witness:
  "\<exists>s' sent new. client_call (FromServer (example_update ''ACK'' 1)) example_client = Some (s', sent, new) \<and>
    length sent = 1 \<and> cs_has_inflight s' \<and> cs_version s' = 1"
proof -
  from acknowledged [OF example_client_simps(1-4), of "''ACK''" 1]
  obtain s' sent where "ts_client_state_handle_message example_client (example_update ''ACK'' 1) = Some (s', sent)"
    "map msg_base_version sent = [1]" "cs_has_inflight s'" "cs_version s' = 1"
    by (auto simp: example_client_simps)
  moreover from this(1) have c: "client_call (FromServer (example_update ''ACK'' 1)) example_client = Some (s', sent, [])"
    by (simp add: client_call_def)
  ultimately show ?thesis using one_operation_in_flight [OF c] by (cases sent) auto
qed

theorem remote_operation_applies_next_version_witness:
  "\<exists>s'. ts_client_state_handle_message example_client (example_update ''REMOTE_OP'' 1) = Some (s', []) \<and>
    utf8_chars (cs_content s') = [''x'', ''a'', ''b'', ''c''] \<and> cs_version s' = 1"
  using remote_operation_applies_next_version [OF example_client_simps(1-5), of "''REMOTE_OP''" 1]
  by (auto simp: example_client_simps)

theorem acknowledgement_applies_and_sends_next_witness:
  "\<exists>s' sent. ts_client_state_handle_message example_client (example_update ''ACK'' 1) = Some (s', sent) \<and>
    utf8_chars (cs_content s') = [''x'', ''a'', ''b'', ''c''] \<and> map msg_base_version sent = [1]"
  using acknowledgement_applies_and_sends_next [OF example_client_simps(1-4), of "''ACK''" 1]
  by (auto simp: example_client_simps)

end
