(* ===== verification/Json.thy ===== *)
theory Json
  imports Message
begin

text \<open>
  The hand-written JSON routines of \<open>protocol.c\<close>: the string builder, escaping, the search
  for a key, and the readers of strings, integers and nested objects. Allocations are assumed
  to succeed. A \<open>const char *\<close> into the line is the rest of the string from there; reading
  behind the terminator is undefined behaviour.
\<close>

section \<open>The string builder\<close>

text \<open>\<open>sb_data\<close> is the text up to the terminator, or null before the first append; its length is
  the field \<open>len\<close> of the code.\<close>

record TsStringBuilder =
  sb_data :: "string option"
  sb_cap :: nat

definition sb_zero :: TsStringBuilder where
  "sb_zero = \<lparr>sb_data = None, sb_cap = 0\<rparr>"

definition sb_text :: "TsStringBuilder \<Rightarrow> string" where
  "sb_text sb = (case sb_data sb of None \<Rightarrow> [] | Some d \<Rightarrow> d)"

definition sb_len :: "TsStringBuilder \<Rightarrow> nat" where
  "sb_len sb = length (sb_text sb)"

function sb_grow :: "nat \<Rightarrow> nat \<Rightarrow> nat" where
  \<comment> \<open>\<open>while (next < needed) next *= 2;\<close> with a \<open>next\<close> that is never 0\<close>
  "sb_grow next needed = (if 0 < next \<and> next < needed then sb_grow (next * 2) needed else next)"
  by pat_completeness auto
termination by (relation "measure (\<lambda>(next, needed). needed - next)") auto

declare sb_grow.simps [simp del]

definition sb_reserve :: "TsStringBuilder \<Rightarrow> nat \<Rightarrow> TsStringBuilder" where
  "sb_reserve sb extra =
     (if sb_len sb + extra + 1 \<le> sb_cap sb then sb
      else let next = (if sb_cap sb = 0 then 256 else sb_cap sb);
               next = sb_grow next (sb_len sb + extra + 1)
           in sb\<lparr>sb_data := Some (sb_text sb), sb_cap := next\<rparr>)"

definition sb_append :: "TsStringBuilder \<Rightarrow> string \<Rightarrow> TsStringBuilder" where
  "sb_append sb text =
     (let sb = sb_reserve sb (length text) in sb\<lparr>sb_data := Some (sb_text sb @ text)\<rparr>)"

text \<open>\<open>sb_appendf\<close> after formatting: \<open>vsnprintf\<close> fails when the result is longer than \<open>INT_MAX\<close>, and
  then nothing is appended.\<close>

definition sb_appendf :: "TsStringBuilder \<Rightarrow> string \<Rightarrow> TsStringBuilder" where
  "sb_appendf sb formatted =
     (if int (length formatted) > c_int_max then sb
      else let sb = sb_reserve sb (length formatted) in sb\<lparr>sb_data := Some (sb_text sb @ formatted)\<rparr>)"

lemma sb_grow_enough: "0 < cap \<Longrightarrow> needed \<le> sb_grow cap needed"
proof (induction cap needed rule: sb_grow.induct)
  case (1 cap needed)
  then show ?case by (subst sb_grow.simps) auto
qed

text \<open>After a reservation the text and its terminator fit the allocation.\<close>

lemma sb_reserve_room: "sb_len sb + extra < sb_cap (sb_reserve sb extra)"
  using sb_grow_enough [of "if sb_cap sb = 0 then 256 else sb_cap sb" "sb_len sb + extra + 1"]
  by (auto simp: sb_reserve_def Let_def split: if_splits)

lemma sb_text_reserve [simp]: "sb_text (sb_reserve sb extra) = sb_text sb"
  by (simp add: sb_reserve_def sb_text_def Let_def)

lemma sb_text_simps [simp]:
  "sb_text sb_zero = []"
  "sb_text (sb_append sb t) = sb_text sb @ t"
  by (simp_all add: sb_zero_def sb_append_def Let_def) (simp_all add: sb_text_def)

lemma sb_text_appendf [simp]:
  "int (length t) \<le> c_int_max \<Longrightarrow> sb_text (sb_appendf sb t) = sb_text sb @ t"
  by (simp add: sb_appendf_def Let_def sb_text_def [of "sb_data_update _ _"])

text \<open>\<open>sb.data == NULL ? ts_strdup("") : sb.data\<close>\<close>

definition sb_finish :: "TsStringBuilder \<Rightarrow> string" where
  "sb_finish sb = (case sb_data sb of None \<Rightarrow> ts_strdup (Some []) | Some d \<Rightarrow> d)"

lemma sb_finish_text [simp]: "sb_finish sb = sb_text sb"
  by (simp add: sb_finish_def sb_text_def ts_strdup_def split: option.splits)

section \<open>Escaping\<close>

definition hex_digit :: "nat \<Rightarrow> char" where
  "hex_digit d = (if d < 10 then char_of (48 + d) else char_of (87 + d))"

definition hex4 :: "nat \<Rightarrow> string" where
  \<comment> \<open>\<open>"%04x"\<close> of a number below 65536\<close>
  "hex4 n = [hex_digit (n div 4096 mod 16), hex_digit (n div 256 mod 16),
             hex_digit (n div 16 mod 16), hex_digit (n mod 16)]"

definition escape_char :: "TsStringBuilder \<Rightarrow> char \<Rightarrow> TsStringBuilder" where
  "escape_char sb ch =
     (if ch = CHR 0x5C then sb_append sb [CHR 0x5C, CHR 0x5C]
      else if ch = CHR 0x22 then sb_append sb [CHR 0x5C, CHR 0x22]
      else if ch = CHR 0x0A then sb_append sb [CHR 0x5C, CHR ''n'']
      else if ch = CHR 0x0D then sb_append sb [CHR 0x5C, CHR ''r'']
      else if ch = CHR 0x09 then sb_append sb [CHR 0x5C, CHR ''t'']
      else if (of_char ch :: nat) < 0x20 then sb_appendf sb ([CHR 0x5C, CHR ''u''] @ hex4 (of_char ch))
      else sb_append sb [ch])"

fun json_escape_loop :: "string \<Rightarrow> TsStringBuilder \<Rightarrow> TsStringBuilder" where
  "json_escape_loop [] sb = sb"
| "json_escape_loop (ch # cursor) sb = json_escape_loop cursor (escape_char sb ch)"

definition json_escape :: "string option \<Rightarrow> string" where
  "json_escape value =
     sb_finish (json_escape_loop (case value of Some v \<Rightarrow> v | None \<Rightarrow> []) sb_zero)"

section \<open>Searching a key\<close>

definition isspace :: "char \<Rightarrow> bool" where
  "isspace c \<longleftrightarrow> c = CHR 0x20 \<or> (9 \<le> (of_char c :: nat) \<and> (of_char c :: nat) \<le> 13)"

fun skip_ws :: "string \<Rightarrow> string" where
  "skip_ws [] = []"
| "skip_ws (c # p) = (if isspace c then skip_ws p else c # p)"

fun strstr :: "string \<Rightarrow> string \<Rightarrow> string option" where
  "strstr [] needle = (if needle = [] then Some [] else None)"
| "strstr (c # p) needle = (if prefix needle (c # p) then Some (c # p) else strstr p needle)"

lemma strstr_length: "strstr p needle = Some q \<Longrightarrow> length q \<le> length p"
  by (induction p needle rule: strstr.induct) (auto split: if_splits)

lemma strstr_prefix: "strstr p needle = Some q \<Longrightarrow> prefix needle q"
  by (induction p needle rule: strstr.induct) (auto split: if_splits)

function find_key_loop :: "string \<Rightarrow> string \<Rightarrow> string option" where
  \<comment> \<open>the pattern is never empty: it carries the quotes\<close>
  "find_key_loop p pattern =
     (case strstr p pattern of
        None \<Rightarrow> None
      | Some p \<Rightarrow>
          (let after = skip_ws (drop (length pattern) p) in
           if after \<noteq> [] \<and> hd after = CHR '':'' then Some (skip_ws (tl after))
           else if pattern = [] then None
           else find_key_loop (drop (length pattern) p) pattern))"
  by pat_completeness auto
termination
proof (relation "measure (\<lambda>(p, pattern). length p)", goal_cases)
  case (2 p pattern q after)
  then have "prefix pattern q" "length q \<le> length p" by (auto dest: strstr_prefix strstr_length)
  with 2(4) show ?case by (cases pattern) (auto simp: prefix_def)
qed simp

declare find_key_loop.simps [simp del]

definition find_key :: "string \<Rightarrow> string \<Rightarrow> string option" where
  "find_key json key = find_key_loop json (snprintf_buf 96 ([CHR 0x22] @ key @ [CHR 0x22]))"

section \<open>Reading values\<close>

definition hex_value :: "char \<Rightarrow> int" where
  "hex_value ch =
     (let c = (of_char ch :: int) in
      if of_char CHR ''0'' \<le> c \<and> c \<le> of_char CHR ''9'' then c - of_char CHR ''0''
      else if of_char CHR ''a'' \<le> c \<and> c \<le> of_char CHR ''f'' then 10 + c - of_char CHR ''a''
      else if of_char CHR ''A'' \<le> c \<and> c \<le> of_char CHR ''F'' then 10 + c - of_char CHR ''A''
      else -1)"

text \<open>\<open>char_at s i\<close> is \<open>s[i]\<close>: the terminator at the end, undefined behind it.\<close>

definition char_at :: "string \<Rightarrow> nat \<Rightarrow> char ub" where
  "char_at s i = (if i < length s then Some (s ! i) else if i = length s then Some CHR 0x00 else None)"

text \<open>The loop of \<open>parse_json_string_alloc\<close> behind the opening quote. The outer option is
  undefined behaviour, the inner one the null pointer; a result carries the text behind the
  closing quote (\<open>*end_out\<close>).\<close>

function parse_json_string_loop ::
  "string \<Rightarrow> TsStringBuilder \<Rightarrow> (string \<times> string) option ub" where
  "parse_json_string_loop start sb =
     (case start of
        [] \<Rightarrow> Some None
      | ch # start \<Rightarrow>
          if ch = CHR 0x22 then Some (Some (sb_finish sb, start))
          else if ch = CHR 0x5C then
            (case start of
               [] \<Rightarrow> Some None
             | esc # start \<Rightarrow>
                 if esc = CHR 0x22 \<or> esc = CHR 0x5C \<or> esc = CHR ''/'' then
                   parse_json_string_loop start (sb_appendf sb [esc])
                 else if esc = CHR ''n'' then parse_json_string_loop start (sb_append sb [CHR 0x0A])
                 else if esc = CHR ''r'' then parse_json_string_loop start (sb_append sb [CHR 0x0D])
                 else if esc = CHR ''t'' then parse_json_string_loop start (sb_append sb [CHR 0x09])
                 else if esc = CHR ''u'' then
                   (case (char_at start 0, char_at start 1, char_at start 2, char_at start 3) of
                      (Some c1, Some c2, Some c3, Some c4) \<Rightarrow>
                        (let h1 = hex_value c1; h2 = hex_value c2; h3 = hex_value c3; h4 = hex_value c4 in
                         if h1 < 0 \<or> h2 < 0 \<or> h3 < 0 \<or> h4 < 0 then Some None
                         else
                           (let code = push_bit 12 h1 OR push_bit 8 h2 OR push_bit 4 h3 OR h4 in
                            parse_json_string_loop (drop 4 start)
                              (if 0 < code \<and> code < 0x80 then sb_appendf sb [char_of (nat code)]
                               else sb_append sb ''?'')))
                    | _ \<Rightarrow> None)
                 else Some None)
          else parse_json_string_loop start (sb_append sb [ch]))"
  by pat_completeness auto
termination by (relation "measure (\<lambda>(start, sb). length start)") auto

declare parse_json_string_loop.simps [simp del]

definition parse_json_string_alloc :: "string \<Rightarrow> (string \<times> string) option ub" where
  "parse_json_string_alloc start =
     (if start = [] \<or> hd start \<noteq> CHR 0x22 then Some None
      else parse_json_string_loop (tl start) sb_zero)"

text \<open>\<open>json_get_string\<close> yields the new content of \<open>out\<close>, or null when it returns false and leaves
  \<open>out\<close> alone.\<close>

definition json_get_content :: "string \<Rightarrow> string \<Rightarrow> string option ub" where
  "json_get_content json key =
     (case find_key json key of
        None \<Rightarrow> Some None
      | Some value \<Rightarrow>
          if value = [] \<or> hd value \<noteq> CHR 0x22 then Some None
          else map_option (map_option fst) (parse_json_string_alloc value))"

definition json_get_string :: "string \<Rightarrow> string \<Rightarrow> nat \<Rightarrow> string option ub" where
  "json_get_string json key out_size =
     (case find_key json key of
        None \<Rightarrow> Some None
      | Some value \<Rightarrow>
          if value = [] \<or> hd value \<noteq> CHR 0x22 then Some None
          else do {
            parsed \<leftarrow> parse_json_string_alloc value;
            Some (case parsed of None \<Rightarrow> None | Some (text, _) \<Rightarrow> Some (snprintf_buf out_size text))
          })"

text \<open>\<open>strtol\<close> in base 10 on a 64-bit \<open>long\<close>; null when there is no number or it is out of range.\<close>

definition strtol :: "string \<Rightarrow> int option" where
  "strtol s =
     (let s = skip_ws s;
          neg = (s \<noteq> [] \<and> hd s = CHR ''-'');
          s = (if s \<noteq> [] \<and> (hd s = CHR ''-'' \<or> hd s = CHR ''+'') then tl s else s);
          digits = takeWhile is_digit s;
          n = int (digits_value digits);
          n = (if neg then - n else n) in
      if digits = [] \<or> n < -9223372036854775808 \<or> n > 9223372036854775807 then None else Some n)"

definition json_get_int :: "string \<Rightarrow> string \<Rightarrow> int option" where
  "json_get_int json key =
     (case find_key json key of None \<Rightarrow> None | Some value \<Rightarrow> map_option to_c_int (strtol value))"

text \<open>The scan for the end of a nested object; \<open>seen\<close> is the text from its opening brace.\<close>

fun object_scan :: "string \<Rightarrow> bool \<Rightarrow> bool \<Rightarrow> int \<Rightarrow> string \<Rightarrow> string option" where
  "object_scan [] in_string escape depth seen = None"
| "object_scan (ch # value) in_string escape depth seen =
     (let seen = seen @ [ch] in
      if in_string then
        (if escape then object_scan value in_string False depth seen
         else if ch = CHR 0x5C then object_scan value in_string True depth seen
         else if ch = CHR 0x22 then object_scan value False escape depth seen
         else object_scan value in_string escape depth seen)
      else if ch = CHR 0x22 then object_scan value True escape depth seen
      else if ch = CHR 0x7B then object_scan value in_string escape (depth + 1) seen
      else if ch = CHR 0x7D then
        (if depth - 1 = 0 then Some seen else object_scan value in_string escape (depth - 1) seen)
      else object_scan value in_string escape depth seen)"

definition json_get_object :: "string \<Rightarrow> string \<Rightarrow> string option" where
  "json_get_object json key =
     (case find_key json key of
        None \<Rightarrow> None
      | Some value \<Rightarrow>
          if value = [] \<or> hd value \<noteq> CHR 0x7B then None else object_scan value False False 0 [])"

end
