(* ===== verification/Protocol.thy ===== *)
theory Protocol
  imports Json Utf8
begin

text \<open>
  Encoding and decoding of protocol messages, \<open>ts_encode_message\<close> and \<open>ts_decode_message\<close> of
  \<open>protocol.c\<close>: one line of JSON per message, fields with default values left out.
\<close>

section \<open>Encoding\<close>

text \<open>The builder and the flag \<open>first\<close> are threaded through as a pair.\<close>

definition append_json_field_prefix :: "TsStringBuilder \<times> bool \<Rightarrow> string \<Rightarrow> TsStringBuilder \<times> bool" where
  "append_json_field_prefix st name =
     (let (sb, first) = st;
          sb = (if \<not> first then sb_append sb '','' else sb)
      in (sb_appendf sb ([CHR 0x22] @ name @ [CHR 0x22] @ '':''), False))"

definition append_string_field ::
  "TsStringBuilder \<times> bool \<Rightarrow> string \<Rightarrow> string option \<Rightarrow> TsStringBuilder \<times> bool" where
  "append_string_field st name value =
     (case value of
        None \<Rightarrow> st
      | Some [] \<Rightarrow> st
      | Some v \<Rightarrow>
          (let escaped = json_escape (Some v); (sb, first) = append_json_field_prefix st name
           in (sb_appendf sb ([CHR 0x22] @ escaped @ [CHR 0x22]), first)))"

definition append_int_field :: "TsStringBuilder \<times> bool \<Rightarrow> string \<Rightarrow> int \<Rightarrow> TsStringBuilder \<times> bool" where
  "append_int_field st name value =
     (if value < 0 then st
      else let (sb, first) = append_json_field_prefix st name in (sb_appendf sb (show_int value), first))"

definition append_operation_field ::
  "TsStringBuilder \<times> bool \<Rightarrow> string \<Rightarrow> TsOperation \<Rightarrow> TsStringBuilder \<times> bool" where
  \<open>append_operation_field st name op =
     (let escaped_char = json_escape (Some (op_ch op));
          escaped_reason = json_escape (Some (op_reason op));
          (sb, first) = append_json_field_prefix st name;
          sb = sb_appendf sb (''{"kind":"'' @ ts_operation_kind_name (op_kind op) @ ''","pos":'' @
                 show_nat (op_pos op));
          sb = (if op_kind op = TS_OP_INSERT
                then sb_appendf sb ('',"char":"'' @ escaped_char @ [CHR 0x22]) else sb);
          sb = (if op_reason op \<noteq> []
                then sb_appendf sb ('',"reason":"'' @ escaped_reason @ [CHR 0x22]) else sb)
      in (sb_append sb ''}'', first))\<close>

definition ts_encode_message :: "TsMessage \<Rightarrow> string" where
  "ts_encode_message message =
     (let st = (sb_append sb_zero [CHR 0x7B], True);
          st = append_string_field st ''type'' (Some (msg_type message));
          st = append_string_field st ''client_id'' (Some (msg_client_id message));
          st = append_string_field st ''op_id'' (Some (msg_op_id message));
          st = append_int_field st ''base_version'' (msg_base_version message);
          st = append_int_field st ''server_version'' (msg_server_version message);
          st = append_int_field st ''version'' (msg_version message);
          st = append_int_field st ''history_start_version'' (msg_history_start_version message);
          st = (if msg_has_op message then append_operation_field st ''op'' (msg_op message) else st);
          st = (if msg_has_original_op message
                then append_operation_field st ''original_op'' (msg_original_op message) else st);
          st = append_string_field st ''message'' (Some (msg_message message));
          st = append_string_field st ''reason'' (Some (msg_reason message));
          st = (case msg_content message of
                  None \<Rightarrow> st
                | Some content \<Rightarrow>
                    (let escaped = json_escape (Some content); (sb, first) = append_json_field_prefix st ''content''
                     in (sb_appendf sb ([CHR 0x22] @ escaped @ [CHR 0x22]), first)))
      in sb_finish (sb_append (fst st) [CHR 0x7D, CHR 0x0A]))"

section \<open>Decoding\<close>

text \<open>\<open>out_default d r\<close> is a buffer that held \<open>d\<close> after a reader that writes it only on success.\<close>

definition out_default :: "'a \<Rightarrow> 'a option \<Rightarrow> 'a" where
  "out_default d r = (case r of None \<Rightarrow> d | Some x \<Rightarrow> x)"

text \<open>The result is the return code, the operation as the code leaves it and the error buffer.\<close>

definition parse_operation_object ::
  "string \<Rightarrow> string \<Rightarrow> nat \<Rightarrow> (int \<times> TsOperation \<times> string) ub" where
  "parse_operation_object json error error_size = do {
     kind \<leftarrow> json_get_string json ''kind'' TS_MAX_TYPE;
     case kind of
       None \<Rightarrow> Some (-1, zero_operation, snprintf_buf error_size ''operation kind is required'')
     | Some kind \<Rightarrow>
         (let op = zero_operation\<lparr>op_kind := ts_operation_kind_from_name (Some kind)\<rparr> in
          if op_kind op = TS_OP_INVALID then
            Some (-1, op, snprintf_buf error_size (''unsupported operation kind: '' @ kind))
          else
            (let op = (case json_get_int json ''pos'' of
                         None \<Rightarrow> op
                       | Some pos \<Rightarrow> if pos > 0 then op\<lparr>op_pos := nat pos\<rparr> else op) in
             if op_kind op = TS_OP_INSERT then do {
               ch \<leftarrow> json_get_string json ''char'' TS_MAX_UTF8_CHAR;
               case ch of
                 None \<Rightarrow> Some (-1, op,
                   snprintf_buf error_size ''insert operation requires one UTF-8 character'')
               | Some ch \<Rightarrow>
                   if ts_utf8_char_count (Some ch) \<noteq> 1 then
                     Some (-1, op, snprintf_buf error_size ''insert operation requires one UTF-8 character'')
                   else do {
                     let op = op\<lparr>op_ch := snprintf_buf TS_MAX_UTF8_CHAR ch\<rparr>;
                     reason \<leftarrow> json_get_string json ''reason'' TS_MAX_REASON;
                     Some (0, op\<lparr>op_reason := out_default (op_reason op) reason\<rparr>, error)
                   }
             } else do {
               reason \<leftarrow> json_get_string json ''reason'' TS_MAX_REASON;
               Some (0, op\<lparr>op_reason := out_default (op_reason op) reason\<rparr>, error)
             }))
   }"

definition ts_decode_message :: "string \<Rightarrow> string \<Rightarrow> nat \<Rightarrow> (int \<times> TsMessage \<times> string) ub" where
  "ts_decode_message line error error_size =
     (let message = ts_message_init; json = skip_ws line in
      if json = [] \<or> hd json \<noteq> CHR 0x7B then
        Some (-1, message, snprintf_buf error_size ''protocol message must be a JSON object'')
      else do {
        type \<leftarrow> json_get_string json ''type'' TS_MAX_TYPE;
        case type of
          None \<Rightarrow> Some (-1, message, snprintf_buf error_size ''message type is required'')
        | Some type \<Rightarrow> do {
            client_id \<leftarrow> json_get_string json ''client_id'' TS_MAX_CLIENT_ID;
            op_id \<leftarrow> json_get_string json ''op_id'' TS_MAX_OP_ID;
            msg \<leftarrow> json_get_string json ''message'' TS_MAX_STATUS;
            reason \<leftarrow> json_get_string json ''reason'' TS_MAX_REASON;
            content \<leftarrow> json_get_content json ''content'';
            let message = message\<lparr>
              msg_type := type,
              msg_client_id := out_default [] client_id,
              msg_op_id := out_default [] op_id,
              msg_message := out_default [] msg,
              msg_reason := out_default [] reason,
              msg_base_version := out_default (-1) (json_get_int json ''base_version''),
              msg_server_version := out_default (-1) (json_get_int json ''server_version''),
              msg_version := out_default (-1) (json_get_int json ''version''),
              msg_history_start_version := out_default (-1) (json_get_int json ''history_start_version''),
              msg_content := content\<rparr>;
            (rc, message, error) \<leftarrow>
              (case json_get_object json ''op'' of
                 None \<Rightarrow> Some (0, message, error)
               | Some op_json \<Rightarrow> do {
                   (rc, op, error) \<leftarrow> parse_operation_object op_json error error_size;
                   if rc \<noteq> 0 then Some (-1, the (ts_message_free (Some (message\<lparr>msg_op := op\<rparr>))), error)
                   else Some (0, message\<lparr>msg_op := op, msg_has_op := True\<rparr>, error)
                 });
            if rc \<noteq> 0 then Some (rc, message, error)
            else
              (case json_get_object json ''original_op'' of
                 None \<Rightarrow> Some (0, message, error)
               | Some original_json \<Rightarrow> do {
                   (rc, op, error) \<leftarrow> parse_operation_object original_json error error_size;
                   if rc = 0
                   then Some (0, message\<lparr>msg_original_op := op, msg_has_original_op := True\<rparr>, error)
                   else Some (0, message\<lparr>msg_original_op := op\<rparr>, error)
                 })
          }
      })"

end
