(* ===== verification/Transport.thy ===== *)
theory Transport
  imports Protocol
begin

text \<open>
  Reading and writing whole messages over a socket: \<open>ts_write_all_fd\<close> of \<open>util.c\<close> and the
  transport of \<open>protocol.c\<close>. The system calls are inputs of the model: a list of the results
  that \<open>read\<close> (or \<open>write\<close>) will give, in order; when the list is used up the call blocks.
\<close>

section \<open>Writing\<close>

text \<open>What a call of \<open>write\<close> does: take some bytes (at most those offered), be interrupted, or fail.\<close>

datatype write_result = Wrote nat | WriteInterrupted | WriteFailed

text \<open>The result is the return code (null while blocked), the bytes that went out and the results
  left.\<close>

fun ts_write_all_fd :: "string \<Rightarrow> write_result list \<Rightarrow> int option \<times> string \<times> write_result list" where
  "ts_write_all_fd data results =
     (if data = [] then (Some 0, [], results)
      else case results of
        [] \<Rightarrow> (None, [], [])
      | WriteInterrupted # results \<Rightarrow> ts_write_all_fd data results
      | WriteFailed # results \<Rightarrow> (Some (-1), [], results)
      | Wrote n # results \<Rightarrow>
          if n = 0 then (Some (-1), [], results)
          else (case ts_write_all_fd (drop n data) results of
                  (rc, out, results) \<Rightarrow> (rc, take n data @ out, results)))"

declare ts_write_all_fd.simps [simp del]

section \<open>The transport\<close>

definition TS_MAX_LINE_BYTES :: nat where
  "TS_MAX_LINE_BYTES = 1024 * 1024"

text \<open>\<open>tr_buffer\<close> is the first \<open>buffer_len\<close> bytes of the buffer; \<open>send_lock\<close> makes every send one step.\<close>

record TsTransport =
  tr_fd :: int
  tr_buffer :: string

definition ts_transport_init :: "int \<Rightarrow> TsTransport" where
  "ts_transport_init fd = \<lparr>tr_fd = fd, tr_buffer = []\<rparr>"

definition ts_transport_destroy :: "TsTransport option \<Rightarrow> TsTransport option" where
  "ts_transport_destroy transport = map_option (\<lambda>t. t\<lparr>tr_buffer := []\<rparr>) transport"

definition ts_transport_send ::
  "TsMessage \<Rightarrow> write_result list \<Rightarrow> int option \<times> string \<times> write_result list" where
  "ts_transport_send message results =
     (let encoded = ts_encode_message message in ts_write_all_fd encoded results)"

text \<open>What a call of \<open>read\<close> does: deliver bytes (none at the end of the stream), be interrupted, or
  fail with a message of \<open>strerror\<close>. Bytes that do not fit the buffer stay for the next call.\<close>

datatype read_result = ReadData string | ReadInterrupted | ReadFailed string

datatype 'a recv_outcome = Returned int 'a string | Blocked

fun find_newline :: "string \<Rightarrow> nat option" where
  "find_newline [] = None"
| "find_newline (c # buffer) = (if c = CHR 0x0A then Some 0 else map_option Suc (find_newline buffer))"

definition event_bytes :: "read_result \<Rightarrow> nat" where
  "event_bytes e = (case e of ReadData s \<Rightarrow> Suc (length s) | _ \<Rightarrow> 1)"

function ts_transport_recv ::
  "TsTransport \<Rightarrow> TsMessage \<Rightarrow> string \<Rightarrow> nat \<Rightarrow> read_result list \<Rightarrow>
   (TsMessage recv_outcome \<times> TsTransport \<times> read_result list) ub" where
  "ts_transport_recv transport message error error_size input =
     (case find_newline (tr_buffer transport) of
        Some i \<Rightarrow> do {
          (rc, message, error) \<leftarrow> ts_decode_message (c_string_of (take i (tr_buffer transport))) error error_size;
          Some (Returned rc message error, transport\<lparr>tr_buffer := drop (i + 1) (tr_buffer transport)\<rparr>, input)
        }
      | None \<Rightarrow>
          if length (tr_buffer transport) \<ge> TS_MAX_LINE_BYTES then
            Some (Returned (-1) message
              (snprintf_buf error_size ''protocol message exceeds maximum line length''), transport, input)
          else
            (case input of
               [] \<Rightarrow> Some (Blocked, transport, [])
             | ReadInterrupted # input \<Rightarrow> ts_transport_recv transport message error error_size input
             | ReadFailed reason # input \<Rightarrow>
                 Some (Returned (-1) message
                   (snprintf_buf error_size (''socket read failed: '' @ reason)), transport, input)
             | ReadData bytes # input \<Rightarrow>
                 if bytes = [] then
                   Some (Returned (-1) message (snprintf_buf error_size ''connection closed''), transport, input)
                 else
                   (let room = TS_MAX_LINE_BYTES - length (tr_buffer transport);
                        left = drop room bytes
                    in ts_transport_recv
                         (transport\<lparr>tr_buffer := tr_buffer transport @ take room bytes\<rparr>)
                         message error error_size
                         (if left = [] then input else ReadData left # input))))"
  by pat_completeness auto
termination
  by (relation "measure (\<lambda>(_, _, _, _, input). sum_list (map event_bytes input))")
    (auto simp: event_bytes_def)

declare ts_transport_recv.simps [simp del]

end
