(* ===== verification/Json_Correct.thy ===== *)
theory Json_Correct
  imports Json
begin

text \<open>
  The JSON routines on text of the shape the encoder writes: escaping and reading a string are
  inverse, the search for a key steps over strings and over fields with another name, the scan
  of an object stops at its own closing brace. All lemmas have the text before a rest, so that
  they rewrite an encoded line from left to right.
\<close>

section \<open>Escaped text\<close>

definition esc :: "char \<Rightarrow> string" where
  "esc ch =
     (if ch = CHR 0x5C then [CHR 0x5C, CHR 0x5C]
      else if ch = CHR 0x22 then [CHR 0x5C, CHR 0x22]
      else if ch = CHR 0x0A then [CHR 0x5C, CHR ''n'']
      else if ch = CHR 0x0D then [CHR 0x5C, CHR ''r'']
      else if ch = CHR 0x09 then [CHR 0x5C, CHR ''t'']
      else if (of_char ch :: nat) < 0x20 then [CHR 0x5C, CHR ''u''] @ hex4 (of_char ch)
      else [ch])"

definition escs :: "string \<Rightarrow> string" where
  "escs s = concat (map esc s)"

lemma escs_simps [simp]:
  "escs [] = []" "escs (c # s) = esc c @ escs s" "escs (s @ t) = escs s @ escs t"
  by (simp_all add: escs_def)

lemma length_hex4 [simp]: "length (hex4 n) = 4"
  by (simp add: hex4_def)

lemma escape_char_text [simp]: "sb_text (escape_char sb c) = sb_text sb @ esc c"
  by (simp add: escape_char_def esc_def c_int_max_def)

lemma json_escape_loop_text: "sb_text (json_escape_loop s sb) = sb_text sb @ escs s"
  by (induction s arbitrary: sb) simp_all

lemma json_escape_eq [simp]: "json_escape (Some s) = escs s"
  by (simp add: json_escape_def json_escape_loop_text)

lemma length_esc: "length (esc c) \<le> 6"
  by (simp add: esc_def)

lemma length_escs: "length (escs s) \<le> 6 * length s"
proof (induction s)
  case (Cons c s)
  with length_esc [of c] show ?case by simp
qed simp

text \<open>Four kinds of characters, by what the escape of a character starts with.\<close>

lemma esc_cases:
  obtains (plain) "esc c = [c]" "c \<noteq> CHR 0x22" "c \<noteq> CHR 0x5C" "\<not> (of_char c :: nat) < 0x20"
  | (simple) x y where "esc c = [CHR 0x5C, x]" "x \<in> {CHR 0x22, CHR 0x5C, CHR ''n'', CHR ''r'', CHR ''t''}"
  | (hex) "esc c = CHR 0x5C # CHR ''u'' # hex4 (of_char c)" "(of_char c :: nat) < 0x20"
proof -
  consider "c = CHR 0x5C" | "c = CHR 0x22" | "c = CHR 0x0A" | "c = CHR 0x0D" | "c = CHR 0x09"
    | "c \<notin> {CHR 0x5C, CHR 0x22, CHR 0x0A, CHR 0x0D, CHR 0x09}" by blast
  then show ?thesis
  proof cases
    case 6
    then show ?thesis
      by (cases "(of_char c :: nat) < 0x20") (auto intro: plain hex simp: esc_def)
  qed (auto intro: simple simp: esc_def)
qed

lemma of_hex_digit:
  "d < 16 \<Longrightarrow> (of_char (hex_digit d) :: nat) = (if d < 10 then 48 + d else 87 + d)"
  "d < 16 \<Longrightarrow> (of_char (hex_digit d) :: int) = (if d < 10 then 48 + int d else 87 + int d)"
proof -
  show n: "d < 16 \<Longrightarrow> (of_char (hex_digit d) :: nat) = (if d < 10 then 48 + d else 87 + d)"
    by (simp add: hex_digit_def)
  have "(of_char (hex_digit d) :: int) = int (of_char (hex_digit d))"
    by (simp only: of_nat_of_char)
  with n show "d < 16 \<Longrightarrow> (of_char (hex_digit d) :: int) = (if d < 10 then 48 + int d else 87 + int d)"
    by simp
qed

lemma hex_digit_plain: "d < 16 \<Longrightarrow> hex_digit d \<notin> {CHR 0x22, CHR 0x5C, CHR 0x0A, CHR 0x00}"
  using of_hex_digit(1) [of d] by (auto split: if_splits)

lemma hex_value_digit: "d < 16 \<Longrightarrow> hex_value (hex_digit d) = int d"
  by (simp add: hex_value_def of_hex_digit Let_def)

lemma hex4_plain: "CHR 0x22 \<notin> set (hex4 n)" "CHR 0x5C \<notin> set (hex4 n)" "CHR 0x0A \<notin> set (hex4 n)"
  "is_cstr (hex4 n)"
  using hex_digit_plain [of "n div 4096 mod 16"] hex_digit_plain [of "n div 256 mod 16"]
    hex_digit_plain [of "n div 16 mod 16"] hex_digit_plain [of "n mod 16"]
  by (auto simp: hex4_def is_cstr_def)

text \<open>Escaped text has neither a line break nor a terminator.\<close>

lemma esc_no_newline: "CHR 0x0A \<notin> set (esc c)"
  using hex4_plain(3) by (cases rule: esc_cases [of c]) auto

lemma escs_no_newline: "CHR 0x0A \<notin> set (escs s)"
  using esc_no_newline by (auto simp: escs_def)

lemma escs_is_cstr: "is_cstr s \<Longrightarrow> is_cstr (escs s)"
proof (induction s)
  case (Cons c s)
  then show ?case using hex4_plain(4) by (auto simp: esc_def)
qed simp

section \<open>Reading an escaped string\<close>

lemma hex_code:
  assumes "n < 32"
  shows "list_all (\<lambda>c. 0 \<le> hex_value c) (hex4 n)"
    "push_bit 12 (hex_value (hex4 n ! 0)) OR push_bit 8 (hex_value (hex4 n ! 1)) OR
       push_bit 4 (hex_value (hex4 n ! 2)) OR hex_value (hex4 n ! 3) = int n"
proof -
  have v: "map hex_value (hex4 n) = [0, 0, int (n div 16), int (n mod 16)]"
    using assms by (simp add: hex4_def hex_value_digit)
  have "\<forall>n \<in> set [0..<32]. push_bit 4 (int (n div 16)) OR int (n mod 16) = int n"
    by (simp add: upt_rec)
  with assms v show "push_bit 12 (hex_value (hex4 n ! 0)) OR push_bit 8 (hex_value (hex4 n ! 1)) OR
       push_bit 4 (hex_value (hex4 n ! 2)) OR hex_value (hex4 n ! 3) = int n"
    by (simp add: hex4_def hex_value_digit)
  from v show "list_all (\<lambda>c. 0 \<le> hex_value c) (hex4 n)" by (auto simp: hex4_def)
qed

lemma parse_plain:
  assumes "esc c = [c]" and "c \<noteq> CHR 0x22" and "c \<noteq> CHR 0x5C"
  shows "parse_json_string_loop (esc c @ t) sb = parse_json_string_loop t (sb_append sb [c])"
  unfolding assms(1) using assms(2,3) by (simp add: parse_json_string_loop.simps [of "_ # _"])

lemma parse_step_esc:
  assumes "c \<noteq> CHR 0x00"
  shows "\<exists>sb'. sb_text sb' = sb_text sb @ [c] \<and>
    parse_json_string_loop (esc c @ t) sb = parse_json_string_loop t sb'"
proof (cases "esc c = CHR 0x5C # CHR ''u'' # hex4 (of_char c) \<and> (of_char c :: nat) < 0x20")
  case False
  then have "c = CHR 0x5C \<or> c = CHR 0x22 \<or> c = CHR 0x0A \<or> c = CHR 0x0D \<or> c = CHR 0x09 \<or>
      c \<noteq> CHR 0x5C \<and> c \<noteq> CHR 0x22 \<and> esc c = [c]" by (fastforce simp: esc_def split: if_splits)
  then have "c = CHR 0x5C \<or> c = CHR 0x22 \<or>
      parse_json_string_loop (esc c @ t) sb = parse_json_string_loop t (sb_append sb [c])"
    by (elim disjE conjE)
      (simp_all add: parse_plain, simp_all add: esc_def parse_json_string_loop.simps [of "_ # _"])
  moreover have "c = CHR 0x5C \<or> c = CHR 0x22 \<Longrightarrow>
      parse_json_string_loop (esc c @ t) sb = parse_json_string_loop t (sb_appendf sb [c])"
    by (elim disjE) (simp_all add: esc_def parse_json_string_loop.simps [of "_ # _"])
  ultimately have "parse_json_string_loop (esc c @ t) sb = parse_json_string_loop t (sb_appendf sb [c]) \<or>
      parse_json_string_loop (esc c @ t) sb = parse_json_string_loop t (sb_append sb [c])" by blast
  moreover have "sb_text (sb_appendf sb [c]) = sb_text sb @ [c]" by (simp add: c_int_max_def)
  ultimately show ?thesis using sb_text_simps(2) by metis
next
  case True
  let ?n = "of_char c :: nat"
  have "?n \<noteq> of_char CHR 0x00" using assms by (simp only: of_char_eq_iff not_False_eq_True)
  then have n: "?n < 32" "0 < ?n" using True by simp_all
  obtain c1 c2 c3 c4 where h: "hex4 ?n = [c1, c2, c3, c4]" unfolding hex4_def by blast
  have "parse_json_string_loop (esc c @ t) sb = parse_json_string_loop t (sb_appendf sb [char_of (nat (int ?n))])"
    using True n hex_code [OF n(1)] h
    by (simp add: parse_json_string_loop.simps [of "_ # _"] char_at_def Let_def)
  then show ?thesis by (intro exI [of _ "sb_appendf sb [c]"]) (simp add: c_int_max_def)
qed

lemma parse_escs:
  "is_cstr s \<Longrightarrow> parse_json_string_loop (escs s @ CHR 0x22 # r) sb = Some (Some (sb_text sb @ s, r))"
proof (induction s arbitrary: sb)
  case Nil
  then show ?case by (simp add: parse_json_string_loop.simps [of "_ # _"])
next
  case (Cons c s)
  with parse_step_esc [of c sb "escs s @ CHR 0x22 # r"] show ?case by fastforce
qed

lemma parse_string [simp]:
  "is_cstr s \<Longrightarrow> parse_json_string_alloc (CHR 0x22 # escs s @ CHR 0x22 # r) = Some (Some (s, r))"
  by (simp add: parse_json_string_alloc_def parse_escs)

section \<open>Searching a key\<close>

definition key_char :: "char \<Rightarrow> bool" where
  "key_char c \<longleftrightarrow> c = CHR ''_'' \<or> (97 \<le> (of_char c :: nat) \<and> (of_char c :: nat) \<le> 122)"

definition simple_key :: "string \<Rightarrow> bool" where
  "simple_key k \<longleftrightarrow> k \<noteq> [] \<and> length k < 90 \<and> list_all key_char k"

text \<open>What follows a value in an encoded line.\<close>

definition delim :: "string \<Rightarrow> bool" where
  "delim r \<longleftrightarrow> r \<noteq> [] \<and> (hd r = CHR '','' \<or> hd r = CHR 0x7D)"

lemma key_char_simps [simp]:
  "\<not> key_char CHR 0x22" "\<not> key_char CHR 0x5C" "\<not> key_char CHR '':''" "\<not> key_char CHR '',''"
  "\<not> key_char CHR 0x7D" "\<not> key_char CHR 0x0A" "\<not> key_char CHR 0x00"
  by (simp_all add: key_char_def)

lemma key_char_esc: "key_char c \<Longrightarrow> esc c = [c]"
  by (auto simp: key_char_def esc_def)

lemma key_escs: "list_all key_char k \<Longrightarrow> escs k = k"
  by (induction k) (simp_all add: key_char_esc)

lemma key_no_quote: "list_all key_char k \<Longrightarrow> CHR 0x22 \<notin> set k"
  by (auto simp: list_all_iff)

lemma simple_key_chars: "simple_key k \<Longrightarrow> list_all key_char k"
  by (simp add: simple_key_def)

lemma find_key_loop_unfold:
  assumes "P \<noteq> []"
  shows "find_key_loop [] P = None"
    "find_key_loop (c # p) P =
      (if prefix P (c # p) then
         (let after = skip_ws (drop (length P) (c # p)) in
          if after \<noteq> [] \<and> hd after = CHR '':'' then Some (skip_ws (tl after))
          else find_key_loop (drop (length P) (c # p)) P)
       else find_key_loop p P)"
  using assms
  by (simp add: find_key_loop.simps,
      cases "prefix P (c # p)")
    (simp_all add: find_key_loop.simps [of "c # p"] find_key_loop.simps [of p])

lemma find_key_loop_of:
  "simple_key k \<Longrightarrow> find_key s k = find_key_loop s (CHR 0x22 # k @ [CHR 0x22])"
  by (simp add: find_key_def simple_key_def)

lemma find_key_plain: "simple_key k \<Longrightarrow> c \<noteq> CHR 0x22 \<Longrightarrow> find_key (c # p) k = find_key p k"
  by (simp add: find_key_loop_of find_key_loop_unfold)

lemma find_key_skip: "simple_key k \<Longrightarrow> CHR 0x22 \<notin> set s \<Longrightarrow> find_key (s @ p) k = find_key p k"
  by (induction s) (simp_all add: find_key_plain [OF _ not_sym])

lemma find_key_quote:
  assumes "simple_key k"
  shows "find_key (CHR 0x22 # p) k =
    (if prefix (k @ [CHR 0x22]) p then
       (let after = skip_ws (drop (Suc (length k)) p) in
        if after \<noteq> [] \<and> hd after = CHR '':'' then Some (skip_ws (tl after))
        else find_key (drop (Suc (length k)) p) k)
     else find_key p k)"
  using assms by (simp add: find_key_loop_of find_key_loop_unfold Let_def)

lemma delim_no_key: "simple_key k \<Longrightarrow> delim r \<Longrightarrow> \<not> prefix (k @ s) r"
  by (cases k; cases r) (auto simp: simple_key_def delim_def)

lemma skip_ws_delim: "delim r \<Longrightarrow> skip_ws r = r \<and> hd r \<noteq> CHR '':'' \<and> hd r \<noteq> CHR 0x22"
  by (cases r) (auto simp: delim_def isspace_def)

text \<open>A key followed by a quote at the front of escaped text is the whole text.\<close>

lemma prefix_escs:
  "list_all key_char k \<Longrightarrow> prefix (k @ [CHR 0x22]) (escs s @ CHR 0x22 # r) \<Longrightarrow> escs s = k"
proof (induction s arbitrary: k)
  case Nil
  then show ?case by (cases k) auto
next
  case (Cons c s)
  show ?case
  proof (cases k)
    case Nil
    with Cons.prems show ?thesis by (cases rule: esc_cases [of c]) auto
  next
    case (Cons a k')
    with Cons.prems Cons.IH [of k'] show ?thesis by (cases rule: esc_cases [of c]) auto
  qed
qed

text \<open>The search steps over a string, from its opening quote or from anywhere inside.\<close>

lemma find_key_escs:
  assumes k: "simple_key k" and r: "delim r"
  shows "find_key (CHR 0x22 # escs s @ CHR 0x22 # r) k = find_key r k \<and>
    find_key (escs s @ CHR 0x22 # r) k = find_key r k"
proof (induction s)
  case Nil
  from k obtain a k' where k': "k = a # k'" "key_char a" by (cases k) (auto simp: simple_key_def)
  have "find_key (CHR 0x22 # r) k = find_key r k"
    using delim_no_key [OF k r, of "[CHR 0x22]"] by (simp add: find_key_quote [OF k])
  moreover have "\<not> prefix (k @ [CHR 0x22]) (CHR 0x22 # r)" using k' by auto
  ultimately show ?case by (simp add: find_key_quote [OF k, of "CHR 0x22 # r"])
next
  case (Cons c s)
  let ?t = "escs s @ CHR 0x22 # r"
  from Cons have plain: "find_key ?t k = find_key r k" and quoted: "find_key (CHR 0x22 # ?t) k = find_key r k"
    by simp_all
  have inside: "find_key (esc c @ ?t) k = find_key r k"
    using plain quoted hex4_plain(1)
    by (cases rule: esc_cases [of c])
      (auto simp: find_key_plain [OF k] find_key_skip [OF k])
  have "find_key (CHR 0x22 # esc c @ ?t) k = find_key r k"
  proof (cases "prefix (k @ [CHR 0x22]) (esc c @ ?t)")
    case True
    with prefix_escs [of k "c # s" r] k have "escs (c # s) = k" by (simp add: simple_key_def)
    then have "esc c @ ?t = k @ CHR 0x22 # r" by auto
    moreover have "find_key (CHR 0x22 # k @ CHR 0x22 # r) k = find_key r k"
      using skip_ws_delim [OF r] by (simp add: find_key_quote [OF k] Let_def)
    ultimately show ?thesis by (simp only:)
  next
    case False
    with inside show ?thesis by (simp add: find_key_quote [OF k])
  qed
  with inside show ?case by simp
qed

lemma find_key_name:
  assumes k: "simple_key k" and n: "simple_key n"
  shows "find_key (CHR 0x22 # n @ CHR 0x22 # CHR '':'' # p) k = (if n = k then Some (skip_ws p) else find_key p k)"
proof (cases "prefix (k @ [CHR 0x22]) (n @ CHR 0x22 # CHR '':'' # p)")
  case True
  with prefix_escs [of k n "CHR '':'' # p"] k n have "n = k" by (simp add: simple_key_def key_escs)
  with True show ?thesis by (simp add: find_key_quote [OF k] isspace_def)
next
  case False
  then have "n \<noteq> k" by auto
  moreover have "\<not> prefix (k @ [CHR 0x22]) (CHR '':'' # p)"
    using k by (cases k) (auto simp: simple_key_def)
  ultimately show ?thesis
    using False key_no_quote [OF simple_key_chars [OF n]]
    by (simp add: find_key_quote [OF k] find_key_skip [OF k] find_key_plain [OF k])
qed

section \<open>Fields\<close>

definition kv :: "string \<Rightarrow> string \<Rightarrow> string" where
  "kv n v = [CHR 0x22] @ n @ [CHR 0x22, CHR '':'', CHR 0x22] @ escs v @ [CHR 0x22]"

definition str_field :: "string \<Rightarrow> string \<Rightarrow> string" where
  "str_field n v = (if v = [] then [] else CHR '','' # kv n v)"

definition int_field :: "string \<Rightarrow> int \<Rightarrow> string" where
  "int_field n i = (if i < 0 then [] else [CHR '','', CHR 0x22] @ n @ [CHR 0x22, CHR '':''] @ show_nat (nat i))"

lemma delim_simps [simp]:
  "delim (CHR '','' # r)" "delim (CHR 0x7D # r)"
  "delim r \<Longrightarrow> delim (str_field n v @ r)" "delim r \<Longrightarrow> delim (int_field n i @ r)"
  by (simp_all add: delim_def str_field_def int_field_def)

lemma isspace_quote [simp]: "\<not> isspace CHR 0x22" "\<not> isspace CHR 0x7B"
  by (simp_all add: isspace_def)

lemma digit_no_space: "is_digit c \<Longrightarrow> \<not> isspace c \<and> c \<noteq> CHR 0x22 \<and> c \<noteq> CHR ''-'' \<and> c \<noteq> CHR ''+''"
  by (auto simp: is_digit_def isspace_def)

lemma show_nat_Cons: obtains d ds where "show_nat n = d # ds" "is_digit d"
  using show_nat_digits [of n] show_nat_nonempty [of n] by (cases "show_nat n") auto

lemma skip_ws_show_nat [simp]: "skip_ws (show_nat n @ r) = show_nat n @ r"
  by (rule show_nat_Cons [of n]) (simp add: digit_no_space)

lemma show_nat_no_quote: "CHR 0x22 \<notin> set (show_nat n)"
  using show_nat_digits digit_no_space by blast

lemma find_key_kv:
  assumes "simple_key k" and "simple_key n" and "delim r"
  shows "find_key (kv n v @ r) k = (if n = k then Some (CHR 0x22 # escs v @ CHR 0x22 # r) else find_key r k)"
  using find_key_name [OF assms(1,2), of "CHR 0x22 # escs v @ CHR 0x22 # r"]
    find_key_escs [OF assms(1,3), of v] by (simp add: kv_def)

lemma find_key_str_field:
  assumes "simple_key k" and "simple_key n" and "delim r"
  shows "find_key (str_field n v @ r) k =
    (if n = k \<and> v \<noteq> [] then Some (CHR 0x22 # escs v @ CHR 0x22 # r) else find_key r k)"
  using find_key_kv [OF assms] assms(1) by (auto simp: str_field_def find_key_plain)

lemma find_key_int_field:
  assumes "simple_key k" and "simple_key n" and "delim r"
  shows "find_key (int_field n i @ r) k =
    (if n = k \<and> 0 \<le> i then Some (show_nat (nat i) @ r) else find_key r k)"
  using find_key_name [OF assms(1,2), of "show_nat (nat i) @ r"] show_nat_no_quote assms(1)
  by (auto simp: int_field_def find_key_plain find_key_skip)

lemma find_key_Nil [simp]: "simple_key k \<Longrightarrow> find_key [] k = None"
  by (simp add: find_key_loop_of find_key_loop_unfold)

section \<open>Reading numbers\<close>

lemma takeWhile_digits: "delim r \<Longrightarrow> takeWhile is_digit (show_nat n @ r) = show_nat n"
  using show_nat_digits [of n]
  by (cases r) (auto simp: takeWhile_append2 delim_def is_digit_def)

lemma strtol_show_nat:
  assumes "delim r" and "int n \<le> c_int_max"
  shows "strtol (show_nat n @ r) = Some (int n)"
proof -
  obtain d ds where d: "show_nat n = d # ds" "is_digit d" by (rule show_nat_Cons)
  then have "hd (show_nat n @ r) \<noteq> CHR ''-''" "hd (show_nat n @ r) \<noteq> CHR ''+''"
    by (simp_all add: digit_no_space)
  then show ?thesis
    using takeWhile_digits [OF assms(1), of n] assms(2) by (simp add: strtol_def Let_def c_int_max_def)
qed

section \<open>Objects\<close>

lemma object_scan_string:
  "object_scan (escs s @ CHR 0x22 # r) True False d seen = object_scan r False False d (seen @ escs s @ [CHR 0x22])"
proof (induction s arbitrary: seen)
  case (Cons c s)
  have hex: "object_scan (h @ t) True False d seen = object_scan t True False d (seen @ h)"
    if "CHR 0x22 \<notin> set h" "CHR 0x5C \<notin> set h" for h t seen
    using that by (induction h arbitrary: seen) auto
  show ?case
    using Cons hex hex4_plain(1,2) [of "of_char c"]
    by (cases rule: esc_cases [of c]) (simp_all add: Let_def)
qed (simp add: Let_def)

lemma object_scan_kv:
  assumes "simple_key n"
  shows "object_scan (kv n v @ r) False False d seen = object_scan r False False d (seen @ kv n v)"
  using object_scan_string [of n "CHR '':'' # CHR 0x22 # escs v @ CHR 0x22 # r" d] object_scan_string [of v r d]
  by (simp add: kv_def Let_def key_escs [OF simple_key_chars [OF assms]])

lemma object_scan_plain:
  "CHR 0x22 \<notin> set s \<Longrightarrow> CHR 0x7B \<notin> set s \<Longrightarrow> CHR 0x7D \<notin> set s \<Longrightarrow>
    object_scan (s @ r) False False d seen = object_scan r False False d (seen @ s)"
  by (induction s arbitrary: seen) (auto simp: Let_def)

section \<open>The buffer behind the text\<close>

lemma sb_grow_bound: "0 < cap \<Longrightarrow> sb_grow cap needed \<le> max cap (2 * needed)"
proof (induction cap needed rule: sb_grow.induct)
  case (1 cap needed)
  then show ?case by (subst sb_grow.simps) auto
qed

text \<open>The text and its terminator lie within the allocation, which is never more than twice what is
  needed.\<close>

definition sb_ok :: "TsStringBuilder \<Rightarrow> bool" where
  "sb_ok sb \<longleftrightarrow> (sb_text sb \<noteq> [] \<longrightarrow> sb_len sb < sb_cap sb) \<and> sb_cap sb \<le> max 256 (2 * (sb_len sb + 1))"

lemma sb_reserve_bound:
  assumes "sb_ok sb"
  shows "sb_len sb + extra < sb_cap (sb_reserve sb extra) \<and>
    sb_cap (sb_reserve sb extra) \<le> max 256 (2 * (sb_len sb + extra + 1))"
proof
  show "sb_len sb + extra < sb_cap (sb_reserve sb extra)" by (rule sb_reserve_room)
  show "sb_cap (sb_reserve sb extra) \<le> max 256 (2 * (sb_len sb + extra + 1))"
    using assms sb_grow_bound [of "if sb_cap sb = 0 then 256 else sb_cap sb" "sb_len sb + extra + 1"]
    by (auto simp: sb_ok_def sb_reserve_def Let_def)
qed

lemma sb_cap_append: "sb_cap (sb_append sb t) = sb_cap (sb_reserve sb (length t))"
  "int (length t) \<le> c_int_max \<Longrightarrow> sb_cap (sb_appendf sb t) = sb_cap (sb_reserve sb (length t))"
  by (simp_all add: sb_append_def sb_appendf_def Let_def)

lemma sb_ok_append:
  "sb_ok sb \<Longrightarrow> sb_ok (sb_append sb t)" "sb_ok sb \<Longrightarrow> int (length t) \<le> c_int_max \<Longrightarrow> sb_ok (sb_appendf sb t)"
  using sb_reserve_bound [of sb "length t"] by (simp_all add: sb_ok_def sb_cap_append sb_len_def add.assoc)

lemma sb_ok_escape: "sb_ok sb \<Longrightarrow> sb_ok (escape_char sb c)"
  by (simp add: escape_char_def sb_ok_append c_int_max_def)

lemma sb_ok_zero: "sb_ok sb_zero"
  by (simp add: sb_ok_def sb_zero_def sb_text_def)

lemma sb_ok_escape_loop: "sb_ok sb \<Longrightarrow> sb_ok (json_escape_loop s sb)"
  by (induction s sb rule: json_escape_loop.induct) (auto intro: sb_ok_escape)



end
