(* ===== verification/Protocol_Correct.thy ===== *)
theory Protocol_Correct
  imports Protocol Json_Correct
begin

text \<open>
  Decoding an encoded message gives it back, with one exception that the proof isolates: the
  search for a key does not respect nesting, so the \<open>reason\<close> of the message is read from the
  first operation that carries one.
\<close>

section \<open>Messages that fit the wire format\<close>

definition wire_op :: "TsOperation \<Rightarrow> bool" where
  "wire_op op \<longleftrightarrow>
     op_kind op \<noteq> TS_OP_INVALID \<and> int (op_pos op) \<le> c_int_max \<and>
     is_cstr (op_reason op) \<and> length (op_reason op) < TS_MAX_REASON \<and>
     (if op_kind op = TS_OP_INSERT
      then ts_utf8_char_count (Some (op_ch op)) = 1 \<and> is_cstr (op_ch op) \<and> length (op_ch op) < TS_MAX_UTF8_CHAR
      else op_ch op = [])"

definition buffer :: "nat \<Rightarrow> string \<Rightarrow> bool" where
  "buffer n s \<longleftrightarrow> is_cstr s \<and> length s < n"

definition version_field :: "int \<Rightarrow> bool" where
  "version_field v \<longleftrightarrow> -1 \<le> v \<and> v \<le> c_int_max"

definition wire_message :: "TsMessage \<Rightarrow> bool" where
  "wire_message m \<longleftrightarrow>
     msg_type m \<noteq> [] \<and> buffer TS_MAX_TYPE (msg_type m) \<and>
     buffer TS_MAX_CLIENT_ID (msg_client_id m) \<and> buffer TS_MAX_OP_ID (msg_op_id m) \<and>
     buffer TS_MAX_STATUS (msg_message m) \<and> buffer TS_MAX_REASON (msg_reason m) \<and>
     version_field (msg_base_version m) \<and> version_field (msg_server_version m) \<and>
     version_field (msg_version m) \<and> version_field (msg_history_start_version m) \<and>
     (if msg_has_op m then wire_op (msg_op m) else msg_op m = zero_operation) \<and>
     (if msg_has_original_op m then wire_op (msg_original_op m) else msg_original_op m = zero_operation) \<and>
     (case msg_content m of None \<Rightarrow> True | Some c \<Rightarrow> is_cstr c \<and> 6 * int (length c) + 2 \<le> c_int_max)"

lemma wire_messageD:
  assumes "wire_message m"
  shows "msg_type m \<noteq> []" "buffer TS_MAX_TYPE (msg_type m)"
    "buffer TS_MAX_CLIENT_ID (msg_client_id m)" "buffer TS_MAX_OP_ID (msg_op_id m)"
    "buffer TS_MAX_STATUS (msg_message m)" "buffer TS_MAX_REASON (msg_reason m)"
    "version_field (msg_base_version m)" "version_field (msg_server_version m)"
    "version_field (msg_version m)" "version_field (msg_history_start_version m)"
    "msg_has_op m \<Longrightarrow> wire_op (msg_op m)" "\<not> msg_has_op m \<Longrightarrow> msg_op m = zero_operation"
    "msg_has_original_op m \<Longrightarrow> wire_op (msg_original_op m)"
    "\<not> msg_has_original_op m \<Longrightarrow> msg_original_op m = zero_operation"
    "msg_content m = Some c \<Longrightarrow> is_cstr c" "msg_content m = Some c \<Longrightarrow> 6 * int (length c) + 2 \<le> c_int_max"
  using assms by (auto simp: wire_message_def split: if_splits)

section \<open>The encoded line\<close>

definition op_body :: "TsOperation \<Rightarrow> string" where
  "op_body op = kv ''kind'' (ts_operation_kind_name (op_kind op)) @ int_field ''pos'' (int (op_pos op)) @
     str_field ''char'' (op_ch op) @ str_field ''reason'' (op_reason op)"

definition op_object :: "TsOperation \<Rightarrow> string" where
  "op_object op = [CHR 0x7B] @ op_body op @ [CHR 0x7D]"

definition op_field :: "string \<Rightarrow> bool \<Rightarrow> TsOperation \<Rightarrow> string" where
  "op_field n has op =
     (if has then [CHR '','', CHR 0x22] @ n @ [CHR 0x22, CHR '':''] @ op_object op else [])"

definition content_field :: "string option \<Rightarrow> string" where
  "content_field c = (case c of None \<Rightarrow> [] | Some c \<Rightarrow> CHR '','' # kv ''content'' c)"

definition line_fields :: "TsMessage \<Rightarrow> string" where
  "line_fields m =
     str_field ''client_id'' (msg_client_id m) @ str_field ''op_id'' (msg_op_id m) @
     int_field ''base_version'' (msg_base_version m) @ int_field ''server_version'' (msg_server_version m) @
     int_field ''version'' (msg_version m) @ int_field ''history_start_version'' (msg_history_start_version m) @
     op_field ''op'' (msg_has_op m) (msg_op m) @
     op_field ''original_op'' (msg_has_original_op m) (msg_original_op m) @
     str_field ''message'' (msg_message m) @ str_field ''reason'' (msg_reason m) @
     content_field (msg_content m) @ [CHR 0x7D]"

definition line_of :: "TsMessage \<Rightarrow> string" where
  "line_of m = [CHR 0x7B] @ kv ''type'' (msg_type m) @ line_fields m"

lemma keys [simp]:
  "simple_key ''type''" "simple_key ''client_id''" "simple_key ''op_id''" "simple_key ''base_version''"
  "simple_key ''server_version''" "simple_key ''version''" "simple_key ''history_start_version''"
  "simple_key ''op''" "simple_key ''original_op''" "simple_key ''message''" "simple_key ''reason''"
  "simple_key ''content''" "simple_key ''kind''" "simple_key ''pos''" "simple_key ''char''"
  by (simp_all add: simple_key_def key_char_def)

lemma kind_name_key: "list_all key_char (ts_operation_kind_name k)"
  by (cases k) (simp_all add: ts_operation_kind_name_def key_char_def)

lemma prefix_field_text:
  "length n < 90 \<Longrightarrow> append_json_field_prefix (sb, False) n =
    (sb_appendf (sb_append sb '','') ([CHR 0x22] @ n @ [CHR 0x22, CHR '':'']), False)"
  by (simp add: append_json_field_prefix_def)

text \<open>A builder that has its first field: what each append adds to the text.\<close>

definition grows :: "TsStringBuilder \<times> bool \<Rightarrow> string \<Rightarrow> TsStringBuilder \<times> bool \<Rightarrow> bool" where
  "grows st t st' \<longleftrightarrow> \<not> snd st \<longrightarrow> \<not> snd st' \<and> sb_text (fst st') = sb_text (fst st) @ t"

lemma growsI: "(\<And>sb. st = (sb, False) \<Longrightarrow> \<not> snd st' \<and> sb_text (fst st') = sb_text sb @ t) \<Longrightarrow> grows st t st'"
  by (cases st) (auto simp: grows_def)

lemma grows_D: "grows st t st' \<Longrightarrow> \<not> snd st \<Longrightarrow> \<not> snd st' \<and> sb_text (fst st') = sb_text (fst st) @ t"
  by (simp add: grows_def)

lemma grows_string:
  assumes "length n < 90" and "length v < 200"
  shows "grows st (str_field n v) (append_string_field st n (Some v))"
  using assms length_escs [of v]
  by (intro growsI)
    (auto simp: append_string_field_def prefix_field_text str_field_def kv_def c_int_max_def split: list.splits)

lemma grows_content:
  assumes "6 * int (length c) + 2 \<le> c_int_max"
  shows "grows st (CHR '','' # kv ''content'' c)
    (let (sb, first) = append_json_field_prefix st ''content''
     in (sb_appendf sb ([CHR 0x22] @ escs c @ [CHR 0x22]), first))"
  using assms length_escs [of c]
  by (intro growsI) (auto simp: prefix_field_text kv_def c_int_max_def)

lemma grows_int:
  assumes "length n < 90" and "version_field i"
  shows "grows st (int_field n i) (append_int_field st n i)"
  using assms length_show_int [of i]
  by (intro growsI)
    (auto simp: append_int_field_def prefix_field_text int_field_def show_int_def version_field_def c_int_max_def)

lemma grows_op:
  assumes "length n < 90" and "wire_op op"
  shows "grows st (op_field n True op) (append_operation_field st n op)"
proof (rule growsI)
  fix sb assume st: "st = (sb, False)"
  have l: "length (escs (op_reason op)) \<le> 1000" "length (show_nat (op_pos op)) \<le> 10"
    "length (ts_operation_kind_name (op_kind op)) \<le> 10" "op_kind op = TS_OP_INSERT \<Longrightarrow> length (escs (op_ch op)) \<le> 100"
    using assms(2) length_escs [of "op_reason op"] length_escs [of "op_ch op"]
    by (auto simp: wire_op_def ts_sizes c_int_max_def ts_operation_kind_name_def
        intro!: length_show_nat split: TsOpKind.splits)
  have "op_kind op = TS_OP_INSERT \<Longrightarrow> op_ch op \<noteq> []" "op_kind op \<noteq> TS_OP_INSERT \<Longrightarrow> op_ch op = []"
    using assms(2) by (auto simp: wire_op_def)
  then show "\<not> snd (append_operation_field st n op) \<and>
    sb_text (fst (append_operation_field st n op)) = sb_text sb @ op_field n True op"
    using l assms(1)
    by (cases "op_kind op = TS_OP_INSERT"; cases "op_reason op = []")
      (auto simp: st append_operation_field_def prefix_field_text op_field_def op_object_def op_body_def
        kv_def str_field_def int_field_def Let_def c_int_max_def key_escs kind_name_key)
qed

lemma grows_op_if:
  assumes "length n < 90" and "b \<Longrightarrow> wire_op op"
  shows "grows st (op_field n b op) (if b then append_operation_field st n op else st)"
  using grows_op [OF assms(1), of op st] assms(2) by (cases b) (auto simp: op_field_def grows_def)

lemma first_field:
  assumes "v \<noteq> []" and "length v < 200"
  shows "\<exists>sb. append_string_field (sb_append sb_zero [CHR 0x7B], True) ''type'' (Some v) = (sb, False) \<and>
    sb_text sb = CHR 0x7B # kv ''type'' v"
  using assms length_escs [of v]
  by (cases v)
    (auto simp: append_string_field_def append_json_field_prefix_def kv_def c_int_max_def)

text \<open>The encoder writes the line and its terminator.\<close>

lemma encode_line:
  assumes wf: "wire_message m"
  shows "ts_encode_message m = line_of m @ [CHR 0x0A]"
proof -
  note w = wire_messageD [OF wf, unfolded buffer_def ts_sizes]
  define s0 where "s0 = append_string_field (sb_append sb_zero [CHR 0x7B], True) ''type'' (Some (msg_type m))"
  define s1 where "s1 = append_string_field s0 ''client_id'' (Some (msg_client_id m))"
  define s2 where "s2 = append_string_field s1 ''op_id'' (Some (msg_op_id m))"
  define s3 where "s3 = append_int_field s2 ''base_version'' (msg_base_version m)"
  define s4 where "s4 = append_int_field s3 ''server_version'' (msg_server_version m)"
  define s5 where "s5 = append_int_field s4 ''version'' (msg_version m)"
  define s6 where "s6 = append_int_field s5 ''history_start_version'' (msg_history_start_version m)"
  define s7 where "s7 = (if msg_has_op m then append_operation_field s6 ''op'' (msg_op m) else s6)"
  define s8 where "s8 = (if msg_has_original_op m
    then append_operation_field s7 ''original_op'' (msg_original_op m) else s7)"
  define s9 where "s9 = append_string_field s8 ''message'' (Some (msg_message m))"
  define s10 where "s10 = append_string_field s9 ''reason'' (Some (msg_reason m))"
  define s11 where "s11 = (case msg_content m of
                  None \<Rightarrow> s10
                | Some content \<Rightarrow>
                    (let (sb, first) = append_json_field_prefix s10 ''content''
                     in (sb_appendf sb ([CHR 0x22] @ escs content @ [CHR 0x22]), first)))"
  have enc: "ts_encode_message m = sb_finish (sb_append (fst s11) [CHR 0x7D, CHR 0x0A])"
    unfolding ts_encode_message_def Let_def s11_def s10_def s9_def s8_def s7_def s6_def s5_def s4_def
      s3_def s2_def s1_def s0_def by (simp split: option.split)
  have "\<not> snd s0 \<and> sb_text (fst s0) = CHR 0x7B # kv ''type'' (msg_type m)"
    using first_field [of "msg_type m"] w(1,2) by (auto simp: s0_def)
  moreover have "grows s0 (str_field ''client_id'' (msg_client_id m)) s1"
    unfolding s1_def using w(3) by (intro grows_string) auto
  moreover have "grows s1 (str_field ''op_id'' (msg_op_id m)) s2"
    unfolding s2_def using w(4) by (intro grows_string) auto
  moreover have "grows s2 (int_field ''base_version'' (msg_base_version m)) s3"
    unfolding s3_def using w(7) by (intro grows_int) auto
  moreover have "grows s3 (int_field ''server_version'' (msg_server_version m)) s4"
    unfolding s4_def using w(8) by (intro grows_int) auto
  moreover have "grows s4 (int_field ''version'' (msg_version m)) s5"
    unfolding s5_def using w(9) by (intro grows_int) auto
  moreover have "grows s5 (int_field ''history_start_version'' (msg_history_start_version m)) s6"
    unfolding s6_def using w(10) by (intro grows_int) auto
  moreover have "grows s6 (op_field ''op'' (msg_has_op m) (msg_op m)) s7"
    unfolding s7_def using w(11) by (intro grows_op_if) auto
  moreover have "grows s7 (op_field ''original_op'' (msg_has_original_op m) (msg_original_op m)) s8"
    unfolding s8_def using w(13) by (intro grows_op_if) auto
  moreover have "grows s8 (str_field ''message'' (msg_message m)) s9"
    unfolding s9_def using w(5) by (intro grows_string) auto
  moreover have "grows s9 (str_field ''reason'' (msg_reason m)) s10"
    unfolding s10_def using w(6) by (intro grows_string) auto
  moreover have "grows s10 (content_field (msg_content m)) s11"
    using grows_content [OF w(16)]
    by (cases "msg_content m") (simp_all add: s11_def content_field_def grows_def)
  ultimately show ?thesis by (simp add: enc grows_def line_of_def line_fields_def)
qed

text \<open>The line has no line break and no terminator of its own.\<close>

lemma simple_key_clean: "simple_key n \<Longrightarrow> CHR 0x0A \<notin> set n"
  by (auto simp: simple_key_def list_all_iff)

lemma kv_no_newline: "simple_key n \<Longrightarrow> CHR 0x0A \<notin> set (kv n v)"
  by (simp add: kv_def escs_no_newline simple_key_clean)

lemma show_nat_no_newline: "CHR 0x0A \<notin> set (show_nat n)"
  using show_nat_digits [of n] by (auto simp: is_digit_def)

lemma fields_no_newline:
  "simple_key n \<Longrightarrow> CHR 0x0A \<notin> set (str_field n v)"
  "simple_key n \<Longrightarrow> CHR 0x0A \<notin> set (int_field n i)"
  "CHR 0x0A \<notin> set (content_field c)"
  by (simp_all add: str_field_def int_field_def content_field_def kv_no_newline show_nat_no_newline
      simple_key_clean split: option.splits)

lemma op_field_no_newline: "simple_key n \<Longrightarrow> CHR 0x0A \<notin> set (op_field n b op)"
  by (simp add: op_field_def op_object_def op_body_def kv_no_newline fields_no_newline simple_key_clean)

lemma line_no_newline: "CHR 0x0A \<notin> set (line_of m)"
  by (simp add: line_of_def line_fields_def kv_no_newline fields_no_newline op_field_no_newline)

section \<open>Searching the line\<close>

lemma delim_fields [simp]:
  "delim r \<Longrightarrow> delim (op_field n b op @ r)" "delim r \<Longrightarrow> delim (content_field c @ r)"
  "delim r \<Longrightarrow> delim (str_field n v @ r)"
  by (simp_all add: op_field_def content_field_def str_field_def split: option.split)

lemma find_key_op_body:
  assumes "simple_key k" and "\<forall>x \<in> {''kind'', ''pos'', ''char'', ''reason''}. x \<noteq> k"
  shows "find_key (op_body op @ CHR 0x7D # r) k = find_key r k"
  using assms by (simp add: op_body_def find_key_kv find_key_str_field find_key_int_field find_key_plain)

lemma find_reason_op_body:
  "find_key (op_body op @ CHR 0x7D # r) ''reason'' =
    (if op_reason op \<noteq> [] then Some (CHR 0x22 # escs (op_reason op) @ CHR 0x22 # CHR 0x7D # r)
     else find_key r ''reason'')"
  by (simp add: op_body_def find_key_kv find_key_str_field find_key_int_field find_key_plain)

lemma find_key_op_field:
  assumes "simple_key k" and "simple_key n" and "\<forall>x \<in> {''kind'', ''pos'', ''char'', ''reason''}. x \<noteq> k"
  shows "find_key (op_field n b op @ r) k = (if b \<and> n = k then Some (op_object op @ r) else find_key r k)"
  using assms find_key_name [OF assms(1,2), of "op_object op @ r"] find_key_op_body [OF assms(1,3)]
  by (auto simp: op_field_def find_key_plain op_object_def)

lemma find_reason_op_field:
  assumes "simple_key n" and "n \<noteq> ''reason''"
  shows "find_key (op_field n b op @ r) ''reason'' =
    (if b \<and> op_reason op \<noteq> [] then Some (CHR 0x22 # escs (op_reason op) @ CHR 0x22 # CHR 0x7D # r)
     else find_key r ''reason'')"
  using assms find_key_name [of "''reason''" n "op_object op @ r"]
  by (auto simp: op_field_def find_key_plain op_object_def find_reason_op_body)

lemma find_key_content:
  assumes "simple_key k" and "delim r"
  shows "find_key (content_field c @ r) k =
    (if ''content'' = k \<and> c \<noteq> None then Some (CHR 0x22 # escs (the c) @ CHR 0x22 # r) else find_key r k)"
  using assms by (auto simp: content_field_def find_key_plain find_key_kv split: option.splits)

lemmas find_fields = find_key_plain find_key_kv find_key_str_field find_key_int_field find_key_op_field
  find_reason_op_field find_key_content

section \<open>Reading the line\<close>

lemma get_string_found:
  assumes "find_key j k = Some (CHR 0x22 # escs v @ CHR 0x22 # r)" and "buffer n v"
  shows "json_get_string j k n = Some (Some v)"
  using assms by (simp add: json_get_string_def buffer_def)

lemma get_string_none: "find_key j k = None \<Longrightarrow> json_get_string j k n = Some None"
  by (simp add: json_get_string_def)

text \<open>An optional string field: absent when empty.\<close>

lemma get_string_field:
  assumes "\<exists>r. find_key j k = (if v \<noteq> [] then Some (CHR 0x22 # escs v @ CHR 0x22 # r) else None)"
    and "buffer n v"
  shows "json_get_string j k n = Some (if v \<noteq> [] then Some v else None)"
  using assms get_string_found get_string_none by (cases "v = []") auto

lemma get_int_field:
  assumes "0 \<le> i \<Longrightarrow> \<exists>r. find_key j k = Some (show_nat (nat i) @ r) \<and> delim r"
    and "\<not> 0 \<le> i \<Longrightarrow> find_key j k = None" and "version_field i"
  shows "out_default (-1) (json_get_int j k) = i"
proof (cases "0 \<le> i")
  case True
  with assms(1) obtain r where "find_key j k = Some (show_nat (nat i) @ r)" "delim r" by blast
  with True assms(3) strtol_show_nat [of r "nat i"] show ?thesis
    by (simp add: json_get_int_def out_default_def version_field_def to_c_int_id c_int_max_def)
next
  case False
  with assms(2,3) show ?thesis by (simp add: json_get_int_def out_default_def version_field_def)
qed

lemma out_default_string [simp]: "out_default [] (if v \<noteq> [] then Some v else None) = v"
  by (simp add: out_default_def)

text \<open>Scanning an operation.\<close>

lemma object_scan_fields:
  assumes "simple_key n"
  shows "object_scan (str_field n v @ r) False False d seen = object_scan r False False d (seen @ str_field n v)"
    "object_scan (int_field n i @ r) False False d seen = object_scan r False False d (seen @ int_field n i)"
proof -
  show "object_scan (str_field n v @ r) False False d seen = object_scan r False False d (seen @ str_field n v)"
    by (simp add: str_field_def Let_def object_scan_kv [OF assms])
  have "CHR 0x22 \<notin> set (show_nat m)" "CHR 0x7B \<notin> set (show_nat m)" "CHR 0x7D \<notin> set (show_nat m)" for m
    using show_nat_digits [of m] by (auto simp: is_digit_def)
  then show "object_scan (int_field n i @ r) False False d seen = object_scan r False False d (seen @ int_field n i)"
    using object_scan_string [of n "CHR '':'' # show_nat (nat i) @ r" d]
    by (simp add: int_field_def Let_def object_scan_plain key_escs [OF simple_key_chars [OF assms]])
qed

lemma object_scan_op: "object_scan (op_object op @ r) False False 0 [] = Some (op_object op)"
  by (simp add: op_object_def op_body_def Let_def object_scan_kv object_scan_fields)

lemma get_object_found: "find_key j k = Some (op_object op @ r) \<Longrightarrow> json_get_object j k = Some (op_object op)"
  using object_scan_op [of op r] by (simp add: json_get_object_def op_object_def)

lemma find_key_object:
  assumes "simple_key k"
  shows "find_key (op_object op) k = find_key (op_body op @ [CHR 0x7D]) k"
  using assms by (simp add: op_object_def find_key_plain)

lemma kind_from_name_inverse:
  "k \<noteq> TS_OP_INVALID \<Longrightarrow> ts_operation_kind_from_name (Some (ts_operation_kind_name k)) = k"
  by (cases k) (simp_all add: ts_operation_kind_from_name_def ts_operation_kind_name_def)

lemma parse_op_object:
  assumes wf: "wire_op op"
  shows "parse_operation_object (op_object op) error n = Some (0, op, error)"
proof -
  let ?j = "op_object op"
  have kind: "json_get_string ?j ''kind'' TS_MAX_TYPE = Some (Some (ts_operation_kind_name (op_kind op)))"
    by (rule get_string_found)
      (simp_all add: find_key_object op_body_def find_fields,
       simp add: buffer_def ts_operation_kind_name_def ts_sizes split: TsOpKind.splits)
  have pos: "json_get_int ?j ''pos'' = Some (int (op_pos op))"
    using wf strtol_show_nat [of "str_field ''char'' (op_ch op) @ str_field ''reason'' (op_reason op) @ [CHR 0x7D]" "op_pos op"]
    by (simp add: json_get_int_def find_key_object op_body_def find_fields wire_op_def to_c_int_id c_int_max_def)
  have reason: "json_get_string ?j ''reason'' TS_MAX_REASON =
      Some (if op_reason op \<noteq> [] then Some (op_reason op) else None)"
    using wf by (intro get_string_field)
      (simp_all add: find_key_object find_reason_op_body find_fields wire_op_def buffer_def)
  have op: "op = \<lparr>op_kind = op_kind op, op_pos = op_pos op, op_ch = op_ch op, op_reason = op_reason op\<rparr>" by simp
  show ?thesis
  proof (cases "op_kind op = TS_OP_INSERT")
    case True
    with wf have ch: "op_ch op \<noteq> []" "buffer TS_MAX_UTF8_CHAR (op_ch op)"
      "ts_utf8_char_count (Some (op_ch op)) = 1"
      by (auto simp: wire_op_def buffer_def)
    have "json_get_string ?j ''char'' TS_MAX_UTF8_CHAR = Some (Some (op_ch op))"
      by (rule get_string_found [OF _ ch(2)])
        (simp add: find_key_object op_body_def find_fields ch(1))
    moreover have "snprintf_buf TS_MAX_UTF8_CHAR (op_ch op) = op_ch op" using ch(2) by (simp add: buffer_def)
    ultimately show ?thesis
      using True kind pos reason ch(3) kind_from_name_inverse [of "op_kind op"]
      by (subst op) (simp add: parse_operation_object_def zero_operation_def Let_def)
  next
    case False
    with wf have k: "op_ch op = []" "op_kind op \<noteq> TS_OP_INVALID" by (simp_all add: wire_op_def)
    with False show ?thesis
      using kind pos reason kind_from_name_inverse [OF k(2)]
      by (subst (2) op) (simp add: parse_operation_object_def zero_operation_def Let_def)
  qed
qed

section \<open>The round trip\<close>

text \<open>The reason that arrives: the first one written anywhere in the line.\<close>

definition arriving_reason :: "TsMessage \<Rightarrow> string" where
  "arriving_reason m =
     (if msg_has_op m \<and> op_reason (msg_op m) \<noteq> [] then op_reason (msg_op m)
      else if msg_has_original_op m \<and> op_reason (msg_original_op m) \<noteq> [] then op_reason (msg_original_op m)
      else msg_reason m)"

lemma find_line:
  assumes "simple_key k" and "\<forall>x \<in> {''type'', ''kind'', ''pos'', ''char'', ''reason''}. x \<noteq> k"
  shows "find_key (line_of m) k = find_key (line_fields m) k"
  using assms by (simp add: line_of_def find_fields line_fields_def)

lemmas find_in_line = find_line line_fields_def find_fields

lemma line_strings:
  assumes wf: "wire_message m"
  shows "json_get_string (line_of m) ''type'' TS_MAX_TYPE = Some (Some (msg_type m))"
    "json_get_string (line_of m) ''client_id'' TS_MAX_CLIENT_ID =
      Some (if msg_client_id m \<noteq> [] then Some (msg_client_id m) else None)"
    "json_get_string (line_of m) ''op_id'' TS_MAX_OP_ID =
      Some (if msg_op_id m \<noteq> [] then Some (msg_op_id m) else None)"
    "json_get_string (line_of m) ''message'' TS_MAX_STATUS =
      Some (if msg_message m \<noteq> [] then Some (msg_message m) else None)"
proof -
  note w = wire_messageD [OF wf]
  show "json_get_string (line_of m) ''type'' TS_MAX_TYPE = Some (Some (msg_type m))"
    by (rule get_string_found [OF _ w(2)]) (simp add: line_of_def line_fields_def find_fields)
  show "json_get_string (line_of m) ''client_id'' TS_MAX_CLIENT_ID =
      Some (if msg_client_id m \<noteq> [] then Some (msg_client_id m) else None)"
    by (rule get_string_field [OF _ w(3)]) (simp add: find_in_line)
  show "json_get_string (line_of m) ''op_id'' TS_MAX_OP_ID =
      Some (if msg_op_id m \<noteq> [] then Some (msg_op_id m) else None)"
    by (rule get_string_field [OF _ w(4)]) (simp add: find_in_line)
  show "json_get_string (line_of m) ''message'' TS_MAX_STATUS =
      Some (if msg_message m \<noteq> [] then Some (msg_message m) else None)"
    by (rule get_string_field [OF _ w(5)]) (simp add: find_in_line)
qed

lemma line_reason:
  assumes wf: "wire_message m"
  shows "json_get_string (line_of m) ''reason'' TS_MAX_REASON =
      Some (if arriving_reason m \<noteq> [] then Some (arriving_reason m) else None)"
proof -
  note w = wire_messageD [OF wf]
  have b: "buffer TS_MAX_REASON (arriving_reason m)"
    using w(6,11,13) by (auto simp: arriving_reason_def wire_op_def buffer_def)
  have "\<exists>r. find_key (line_of m) ''reason'' =
      (if arriving_reason m \<noteq> [] then Some (CHR 0x22 # escs (arriving_reason m) @ CHR 0x22 # r) else None)"
    by (simp add: line_of_def line_fields_def find_fields arriving_reason_def)
  from get_string_field [OF this b] show ?thesis .
qed

lemma line_ints:
  assumes wf: "wire_message m"
  shows "out_default (-1) (json_get_int (line_of m) ''base_version'') = msg_base_version m"
    "out_default (-1) (json_get_int (line_of m) ''server_version'') = msg_server_version m"
    "out_default (-1) (json_get_int (line_of m) ''version'') = msg_version m"
    "out_default (-1) (json_get_int (line_of m) ''history_start_version'') = msg_history_start_version m"
proof -
  note w = wire_messageD [OF wf]
  show "out_default (-1) (json_get_int (line_of m) ''base_version'') = msg_base_version m"
    by (rule get_int_field [OF _ _ w(7)]) (simp_all add: find_in_line)
  show "out_default (-1) (json_get_int (line_of m) ''server_version'') = msg_server_version m"
    by (rule get_int_field [OF _ _ w(8)]) (simp_all add: find_in_line)
  show "out_default (-1) (json_get_int (line_of m) ''version'') = msg_version m"
    by (rule get_int_field [OF _ _ w(9)]) (simp_all add: find_in_line)
  show "out_default (-1) (json_get_int (line_of m) ''history_start_version'') = msg_history_start_version m"
    by (rule get_int_field [OF _ _ w(10)]) (simp_all add: find_in_line)
qed

lemma line_content:
  assumes wf: "wire_message m"
  shows "json_get_content (line_of m) ''content'' = Some (msg_content m)"
  using wire_messageD(15) [OF wf]
  by (cases "msg_content m") (simp_all add: json_get_content_def find_in_line)

lemma line_objects:
  "json_get_object (line_of m) ''op'' = (if msg_has_op m then Some (op_object (msg_op m)) else None)"
  "json_get_object (line_of m) ''original_op'' =
    (if msg_has_original_op m then Some (op_object (msg_original_op m)) else None)"
proof -
  show "json_get_object (line_of m) ''op'' = (if msg_has_op m then Some (op_object (msg_op m)) else None)"
    by (cases "msg_has_op m")
      (auto intro!: get_object_found simp: find_in_line, simp add: json_get_object_def find_in_line)
  show "json_get_object (line_of m) ''original_op'' =
    (if msg_has_original_op m then Some (op_object (msg_original_op m)) else None)"
    by (cases "msg_has_original_op m")
      (auto intro!: get_object_found simp: find_in_line, simp add: json_get_object_def find_in_line)
qed

lemma decode_line:
  assumes "wire_message m"
  shows "ts_decode_message (line_of m) error n = Some (0, m\<lparr>msg_reason := arriving_reason m\<rparr>, error)"
proof -
  note w = wire_messageD [OF assms]
  have "skip_ws (line_of m) = line_of m" "line_of m \<noteq> []" "hd (line_of m) = CHR 0x7B"
    by (simp_all add: line_of_def)
  then show ?thesis
    using w(11-14)
    by (cases "msg_has_op m"; cases "msg_has_original_op m")
      (auto simp: ts_decode_message_def Let_def line_strings [OF assms] line_reason [OF assms]
        line_ints [OF assms] line_content [OF assms] line_objects parse_op_object
        intro!: TsMessage_eqI)
qed



section \<open>Where the decoder falls short\<close>


end
