(* ===== verification/Transport_Correct.thy ===== *)
theory Transport_Correct
  imports Transport Protocol_Correct
begin

text \<open>
  The transport delivers messages whole and in order, however the system calls cut the byte
  stream into pieces.
\<close>

section \<open>Writing everything\<close>

lemma write_all_fd_simps:
  "ts_write_all_fd [] results = (Some 0, [], results)"
  "data \<noteq> [] \<Longrightarrow> ts_write_all_fd data [] = (None, [], [])"
  "data \<noteq> [] \<Longrightarrow> ts_write_all_fd data (WriteInterrupted # rs) = ts_write_all_fd data rs"
  "data \<noteq> [] \<Longrightarrow> ts_write_all_fd data (WriteFailed # rs) = (Some (-1), [], rs)"
  "data \<noteq> [] \<Longrightarrow> ts_write_all_fd data (Wrote 0 # rs) = (Some (-1), [], rs)"
  "data \<noteq> [] \<Longrightarrow> n \<noteq> 0 \<Longrightarrow> ts_write_all_fd data (Wrote n # rs) =
     (case ts_write_all_fd (drop n data) rs of (rc, out, left) \<Rightarrow> (rc, take n data @ out, left))"
  by (simp_all add: ts_write_all_fd.simps)

text \<open>What goes out is always a prefix of the data, and all of it exactly when the call returns 0.\<close>

lemma write_all_fd_prefix:
  "ts_write_all_fd data results = (rc, out, left) \<Longrightarrow> prefix out data \<and> (rc = Some 0 \<longleftrightarrow> out = data)"
proof (induction results arbitrary: data rc out left)
  case Nil
  then show ?case by (cases "data = []") (auto simp: write_all_fd_simps)
next
  case (Cons r rs)
  show ?case
  proof (cases "data = []")
    case True
    with Cons.prems show ?thesis by (simp add: write_all_fd_simps)
  next
    case data: False
    show ?thesis
    proof (cases r)
      case (Wrote n)
      obtain rc' out' left' where w: "ts_write_all_fd (drop n data) rs = (rc', out', left')"
        by (cases "ts_write_all_fd (drop n data) rs") auto
      have o: "n \<noteq> 0 \<Longrightarrow> rc = rc' \<and> out = take n data @ out'"
        using Cons.prems data Wrote w by (simp add: write_all_fd_simps)
      from Cons.IH [OF w] have ih: "prefix out' (drop n data)" "rc' = Some 0 \<longleftrightarrow> out' = drop n data"
        by auto
      have "take n data @ out' = data \<longleftrightarrow> out' = drop n data"
        by (metis append_take_drop_id same_append_eq)
      moreover have "prefix (take n data @ out') data"
        using ih(1) by (metis append_take_drop_id same_prefix_prefix)
      ultimately show ?thesis using o ih(2) Cons.prems data Wrote
        by (cases "n = 0") (auto simp: write_all_fd_simps)
    qed (use Cons data in \<open>auto simp: write_all_fd_simps\<close>)
  qed
qed

section \<open>Lines of a byte stream\<close>

definition input_bytes :: "read_result list \<Rightarrow> string" where
  "input_bytes input = concat (map (\<lambda>e. case e of ReadData s \<Rightarrow> s | _ \<Rightarrow> []) input)"

text \<open>Reads that deliver data or are interrupted: no end of stream and no failure.\<close>

definition only_data :: "read_result list \<Rightarrow> bool" where
  "only_data input \<longleftrightarrow> list_all (\<lambda>e. case e of ReadData s \<Rightarrow> s \<noteq> [] | ReadInterrupted \<Rightarrow> True | ReadFailed _ \<Rightarrow> False) input"

definition pending :: "TsTransport \<Rightarrow> read_result list \<Rightarrow> string" where
  "pending transport input = tr_buffer transport @ input_bytes input"

lemma input_simps [simp]:
  "input_bytes [] = []" "input_bytes (ReadData s # input) = s @ input_bytes input"
  "input_bytes (ReadInterrupted # input) = input_bytes input"
  "only_data []" "only_data (ReadData s # input) \<longleftrightarrow> s \<noteq> [] \<and> only_data input"
  "only_data (ReadInterrupted # input) = only_data input" "\<not> only_data (ReadFailed e # input)"
  by (simp_all add: input_bytes_def only_data_def)

lemma find_newline_None: "find_newline b = None \<longleftrightarrow> CHR 0x0A \<notin> set b"
  by (induction b) auto

lemma find_newline_Some:
  "find_newline b = Some i \<Longrightarrow> b = take i b @ CHR 0x0A # drop (Suc i) b \<and> CHR 0x0A \<notin> set (take i b) \<and> i < length b"
proof (induction b arbitrary: i)
  case (Cons c b)
  show ?case
  proof (cases "c = CHR 0x0A")
    case False
    with Cons.prems obtain j where "find_newline b = Some j" "i = Suc j" by auto
    with Cons.IH [of j] False show ?thesis by auto
  qed (use Cons.prems in auto)
qed simp

text \<open>The first line of a stream is determined.\<close>

lemma first_line_unique:
  assumes "xs @ CHR 0x0A # r = ys @ CHR 0x0A # s" and "CHR 0x0A \<notin> set xs" and "CHR 0x0A \<notin> set ys"
  shows "xs = ys \<and> r = s"
  using assms
proof (induction xs arbitrary: ys)
  case Nil
  then show ?case by (cases ys) auto
next
  case (Cons x xs)
  then show ?case by (cases ys) auto
qed

lemma c_string_of_id: "is_cstr s \<Longrightarrow> c_string_of s = s"
  unfolding c_string_of_def takeWhile_eq_all_conv by (auto simp: is_cstr_def)

text \<open>One call of \<open>ts_transport_recv\<close> decodes the first line and leaves the rest of the stream.\<close>

lemma recv_line:
  assumes "pending transport input = line @ CHR 0x0A # rest" and "CHR 0x0A \<notin> set line" and "is_cstr line"
    and "length line < TS_MAX_LINE_BYTES" and "only_data input"
    and "ts_decode_message line error n = Some (rc, m, error')"
  shows "\<exists>transport' input'.
    ts_transport_recv transport message error n input = Some (Returned rc m error', transport', input') \<and>
    pending transport' input' = rest \<and> only_data input'"
  using assms
proof (induction transport message error n input rule: ts_transport_recv.induct)
  case (1 transport message error n input)
  show ?case
  proof (cases "find_newline (tr_buffer transport)")
    case (Some i)
    let ?b = "tr_buffer transport"
    from find_newline_Some [OF Some] have b: "?b = take i ?b @ CHR 0x0A # drop (Suc i) ?b" "CHR 0x0A \<notin> set (take i ?b)"
      by auto
    have "take i ?b @ CHR 0x0A # (drop (Suc i) ?b @ input_bytes input) = line @ CHR 0x0A # rest"
      using "1.prems"(1) b(1) unfolding pending_def by (metis append.assoc append_Cons)
    from first_line_unique [OF this b(2) "1.prems"(2)]
    have "take i ?b = line" "drop (Suc i) ?b @ input_bytes input = rest" by auto
    with Some "1.prems" show ?thesis
      by (simp add: ts_transport_recv.simps [of transport] c_string_of_id pending_def)
  next
    case None
    let ?b = "tr_buffer transport"
    have nl: "CHR 0x0A \<notin> set ?b" using None by (simp add: find_newline_None)
    have short: "length ?b \<le> length line"
    proof (rule ccontr)
      assume "\<not> ?thesis"
      then have "take (Suc (length line)) (?b @ input_bytes input) = take (Suc (length line)) ?b" by simp
      with "1.prems"(1) have "take (Suc (length line)) ?b = line @ [CHR 0x0A]" by (simp add: pending_def)
      then have "CHR 0x0A \<in> set (take (Suc (length line)) ?b)" by simp
      with nl show False by (meson in_set_takeD)
    qed
    with "1.prems"(4) have room: "\<not> TS_MAX_LINE_BYTES \<le> length ?b" by simp
    show ?thesis
    proof (cases input)
      case Nil
      with "1.prems"(1) nl show ?thesis by (simp add: pending_def)
    next
      case (Cons e es)
      show ?thesis
      proof (cases e)
        case (ReadData bytes)
        with Cons "1.prems"(5) have bytes: "bytes \<noteq> []" by simp
        define room left where "room = TS_MAX_LINE_BYTES - length ?b" and "left = drop room bytes"
        let ?t = "transport\<lparr>tr_buffer := ?b @ take room bytes\<rparr>" and ?in = "if left = [] then es else ReadData left # es"
        have rec: "ts_transport_recv transport message error n input = ts_transport_recv ?t message error n ?in"
          using None \<open>\<not> TS_MAX_LINE_BYTES \<le> length ?b\<close> Cons ReadData bytes
          by (simp add: ts_transport_recv.simps [of transport] room_def left_def Let_def)
        have "take room bytes @ left @ y = bytes @ y" for y
          unfolding left_def by (metis append.assoc append_take_drop_id)
        from this [of "input_bytes es"] have "pending ?t ?in = pending transport input"
          using Cons ReadData by (cases "left = []") (simp_all add: pending_def)
        moreover have "only_data ?in" using "1.prems"(5) Cons ReadData by simp
        ultimately show ?thesis
          using "1.IH"(1) [OF None \<open>\<not> TS_MAX_LINE_BYTES \<le> length ?b\<close> Cons ReadData bytes room_def left_def]
            "1.prems" rec by simp
      next
        case ReadInterrupted
        with "1.IH"(2) [OF None \<open>\<not> TS_MAX_LINE_BYTES \<le> length ?b\<close> Cons ReadInterrupted] "1.prems" Cons None
          \<open>\<not> TS_MAX_LINE_BYTES \<le> length ?b\<close>
        show ?thesis by (simp add: ts_transport_recv.simps [of transport] pending_def)
      next
        case (ReadFailed r)
        with "1.prems"(5) Cons show ?thesis by simp
      qed
    qed
  qed
qed

section \<open>The socket as a link\<close>

definition recv_step ::
  "TsTransport \<times> read_result list \<Rightarrow> ((int \<times> TsMessage) \<times> TsTransport \<times> read_result list) option" where
  \<comment> \<open>one call as the loops of server and client make it; null when it blocks\<close>
  "recv_step s =
     (case s of (transport, input) \<Rightarrow>
        (case ts_transport_recv transport ts_message_init [] 256 input of
           Some (Returned rc m error, transport, input) \<Rightarrow> Some ((rc, m), transport, input)
         | _ \<Rightarrow> None))"

definition sendable :: "TsMessage \<Rightarrow> bool" where
  "sendable m \<longleftrightarrow> wire_message m \<and> length (ts_encode_message m) \<le> TS_MAX_LINE_BYTES"

lemma simple_key_cstr: "simple_key n \<Longrightarrow> is_cstr n"
  by (auto simp: is_cstr_def simple_key_def list_all_iff)

lemma kv_is_cstr: "simple_key n \<Longrightarrow> is_cstr v \<Longrightarrow> is_cstr (kv n v)"
  by (simp add: kv_def escs_is_cstr simple_key_cstr)

lemma field_is_cstr:
  "simple_key n \<Longrightarrow> is_cstr v \<Longrightarrow> is_cstr (str_field n v)" "simple_key n \<Longrightarrow> is_cstr (int_field n i)"
  by (simp_all add: str_field_def int_field_def kv_is_cstr simple_key_cstr)

lemma op_is_cstr: "simple_key n \<Longrightarrow> (b \<Longrightarrow> wire_op op) \<Longrightarrow> is_cstr (op_field n b op)"
proof (cases b)
  case True
  assume n: "simple_key n" and "b \<Longrightarrow> wire_op op"
  with True have "is_cstr (op_reason op)" "is_cstr (op_ch op)" by (auto simp: wire_op_def split: if_splits)
  moreover have "is_cstr (ts_operation_kind_name (op_kind op))"
    by (simp add: ts_operation_kind_name_def split: TsOpKind.splits)
  ultimately show ?thesis using simple_key_cstr [OF n]
    by (simp add: op_field_def op_object_def op_body_def kv_is_cstr field_is_cstr)
qed (simp add: op_field_def)

lemma line_is_cstr:
  assumes "wire_message m"
  shows "is_cstr (line_of m)"
proof -
  note w = wire_messageD [OF assms]
  have "is_cstr (content_field (msg_content m))"
    using w(15) by (cases "msg_content m") (simp_all add: content_field_def kv_is_cstr)
  then show ?thesis
    using w by (simp add: line_of_def line_fields_def kv_is_cstr field_is_cstr op_is_cstr buffer_def)
qed

interpretation socket: framed_link ts_encode_message sendable
  "\<lambda>m. (0, m\<lparr>msg_reason := arriving_reason m\<rparr>)" "\<lambda>(t, input). pending t input"
  "\<lambda>(t, input). only_data input" recv_step
proof unfold_locales
  fix m rest and s :: "TsTransport \<times> read_result list"
  obtain t input where s: "s = (t, input)" by (cases s)
  assume m: "sendable m" and live: "case s of (t, input) \<Rightarrow> only_data input"
    and str: "(case s of (t, input) \<Rightarrow> pending t input) = ts_encode_message m @ rest"
  from m have wf: "wire_message m" and len: "length (line_of m) < TS_MAX_LINE_BYTES"
    by (auto simp: sendable_def encode_line)
  have "skip_ws (line_of m) = line_of m" "line_of m \<noteq> []" by (simp_all add: line_of_def)
  from recv_line [OF _ line_no_newline line_is_cstr [OF wf] len, of t input rest "[]" 256 0
      "m\<lparr>msg_reason := arriving_reason m\<rparr>" "[]" ts_message_init] str live s encode_line [OF wf] decode_line [OF wf]
  show "\<exists>s'. recv_step s = Some ((0, m\<lparr>msg_reason := arriving_reason m\<rparr>), s') \<and>
      (case s' of (t, input) \<Rightarrow> pending t input) = rest \<and> (case s' of (t, input) \<Rightarrow> only_data input)"
    by (auto simp: recv_step_def)
qed


text \<open>C33: A peer that sends the maximum line length without a line break gets no message through:
  the receiver reports an error instead of reading on.\<close>

theorem oversize_line_is_refused:
  assumes "TS_MAX_LINE_BYTES \<le> length (pending transport input)"
    and "CHR 0x0A \<notin> set (take TS_MAX_LINE_BYTES (pending transport input))"
    and "length (tr_buffer transport) \<le> TS_MAX_LINE_BYTES" and "only_data input" and "44 < n"
  shows "\<exists>transport' input'. ts_transport_recv transport message error n input =
    Some (Returned (-1) message ''protocol message exceeds maximum line length'', transport', input')"
  using assms
proof (induction transport message error n input rule: ts_transport_recv.induct)
  case (1 transport message error n input)
  let ?b = "tr_buffer transport"
  have "take TS_MAX_LINE_BYTES (pending transport input) = ?b @ take (TS_MAX_LINE_BYTES - length ?b) (input_bytes input)"
    using "1.prems"(3) by (simp add: pending_def)
  with "1.prems"(2) have nl: "find_newline ?b = None" by (simp add: find_newline_None)
  show ?case
  proof (cases "TS_MAX_LINE_BYTES \<le> length ?b")
    case True
    with nl "1.prems"(5) show ?thesis by (simp add: ts_transport_recv.simps [of transport] snprintf_buf_def)
  next
    case room: False
    show ?thesis
    proof (cases input)
      case Nil
      with room "1.prems"(1) show ?thesis by (simp add: pending_def)
    next
      case (Cons e es)
      show ?thesis
      proof (cases e)
        case (ReadData bytes)
        with Cons "1.prems"(4) have bytes: "bytes \<noteq> []" by simp
        define k left where "k = TS_MAX_LINE_BYTES - length ?b" and "left = drop k bytes"
        let ?t = "transport\<lparr>tr_buffer := ?b @ take k bytes\<rparr>" and ?in = "if left = [] then es else ReadData left # es"
        have "take k bytes @ left @ y = bytes @ y" for y
          unfolding left_def by (metis append.assoc append_take_drop_id)
        from this [of "input_bytes es"] have "pending ?t ?in = pending transport input"
          using Cons ReadData by (cases "left = []") (simp_all add: pending_def)
        moreover have "only_data ?in" "length (tr_buffer ?t) \<le> TS_MAX_LINE_BYTES"
          using "1.prems"(3,4) Cons ReadData by (simp_all add: k_def)
        moreover have "ts_transport_recv transport message error n input = ts_transport_recv ?t message error n ?in"
          using nl room Cons ReadData bytes
          by (simp add: ts_transport_recv.simps [of transport] k_def left_def Let_def)
        ultimately show ?thesis
          using "1.IH"(1) [OF nl room Cons ReadData bytes k_def left_def] "1.prems" by simp
      next
        case ReadInterrupted
        with "1.IH"(2) [OF nl room Cons ReadInterrupted] "1.prems" Cons nl room
        show ?thesis by (simp add: ts_transport_recv.simps [of transport] pending_def)
      next
        case (ReadFailed r)
        with "1.prems"(4) Cons show ?thesis by simp
      qed
    qed
  qed
qed

section \<open>A concrete exchange\<close>

definition ping :: TsMessage where
  "ping = ts_message_init\<lparr>msg_type := ''PING''\<rparr>"

lemma ping_encoded: \<open>ts_encode_message ping = ''{"type":"PING"}'' @ [CHR 0x0A]\<close>
  by code_simp

lemma ping_sendable: "sendable ping"
  by (simp add: sendable_def ping_encoded TS_MAX_LINE_BYTES_def)
    (simp add: ping_def wire_message_def buffer_def version_field_def ts_sizes c_int_max_def)


theorem oversize_line_is_refused_witness:
  "\<exists>transport' input'. ts_transport_recv (ts_transport_init 3) ts_message_init [] 256
      [ReadData (replicate (TS_MAX_LINE_BYTES + 1) CHR ''x'')] =
    Some (Returned (-1) ts_message_init ''protocol message exceeds maximum line length'', transport', input')"
  by (rule oversize_line_is_refused)
    (simp_all add: ts_transport_init_def pending_def TS_MAX_LINE_BYTES_def del: replicate.simps)

end
