(* ===== verification/Events.thy ===== *)
theory Events
  imports Json
begin

text \<open>
  The terminal output of the server, \<open>events.c\<close>: a JSON log entry is turned into one readable
  line by plain text search.
\<close>

definition quote :: string where
  "quote = [CHR 0x22]"

definition json_get_for_format :: "string option \<Rightarrow> string \<Rightarrow> nat \<Rightarrow> string" where
  "json_get_for_format json key out_size =
     (let source = (case json of Some j \<Rightarrow> j | None \<Rightarrow> []);
          pattern = snprintf_buf 96 (quote @ key @ quote @ '':'' @ quote) in
      case strstr source pattern of
        None \<Rightarrow> []
      | Some p \<Rightarrow> take (out_size - 1) (takeWhile (\<lambda>c. c \<noteq> CHR 0x22) (drop (length pattern) p)))"

text \<open>\<open>atoi\<close> is the conversion to \<open>int\<close> of what \<open>strtol\<close> gives, which is the nearest \<open>long\<close> when the
  number is out of range and 0 when there is none.\<close>

definition atoi :: "string \<Rightarrow> int" where
  "atoi s =
     (let s = skip_ws s;
          neg = (s \<noteq> [] \<and> hd s = CHR ''-'');
          s = (if s \<noteq> [] \<and> (hd s = CHR ''-'' \<or> hd s = CHR ''+'') then tl s else s);
          n = int (digits_value (takeWhile is_digit s));
          n = (if neg then - n else n)
      in to_c_int (min 9223372036854775807 (max (-9223372036854775808) n)))"

definition json_int_for_format :: "string option \<Rightarrow> string \<Rightarrow> int \<Rightarrow> int" where
  "json_int_for_format json key fallback =
     (let source = (case json of Some j \<Rightarrow> j | None \<Rightarrow> []);
          pattern = snprintf_buf 96 (quote @ key @ quote @ '':'') in
      case strstr source pattern of
        None \<Rightarrow> fallback
      | Some p \<Rightarrow> atoi (drop (length pattern) p))"

definition ts_format_operation_event :: "string option \<Rightarrow> nat \<Rightarrow> string" where
  "ts_format_operation_event entry_json out_size =
     (let client_id = json_get_for_format entry_json ''client_id'' TS_MAX_CLIENT_ID;
          transformed = strstr (case entry_json of Some j \<Rightarrow> j | None \<Rightarrow> []) (quote @ ''transformed_op'' @ quote);
          place = (case transformed of Some t \<Rightarrow> Some t | None \<Rightarrow> entry_json);
          kind = json_get_for_format place ''kind'' TS_MAX_TYPE;
          ch = json_get_for_format place ''char'' TS_MAX_UTF8_CHAR;
          version = json_int_for_format entry_json ''server_version'' 0;
          base = json_int_for_format entry_json ''base_version'' 0;
          pos = json_int_for_format place ''pos'' 0 in
      if kind = ''insert'' then
        snprintf_buf out_size (''OP v'' @ show_int version @ '' client='' @ client_id @ '' insert pos='' @
          show_int pos @ '' char='' @ [CHR 0x27] @ ch @ [CHR 0x27] @ '' base='' @ show_int base)
      else
        snprintf_buf out_size (''OP v'' @ show_int version @ '' client='' @ client_id @ '' '' @
          (if kind \<noteq> [] then kind else ''unknown'') @ '' pos='' @ show_int pos @ '' base='' @ show_int base))"

definition ts_format_save_event :: "string \<Rightarrow> string option \<Rightarrow> int \<Rightarrow> string \<Rightarrow> nat \<Rightarrow> string" where
  "ts_format_save_event reason client_id version path out_size =
     (case client_id of
        Some (c # cs) \<Rightarrow>
          snprintf_buf out_size (''SAVE '' @ reason @ '' client='' @ (c # cs) @ '' version='' @
            show_int version @ '' file='' @ path)
      | _ \<Rightarrow> snprintf_buf out_size (''SAVE '' @ reason @ '' version='' @ show_int version @ '' file='' @ path))"

definition ts_format_server_event :: "string option \<Rightarrow> nat \<Rightarrow> string" where
  "ts_format_server_event entry_json out_size =
     (let event = json_get_for_format entry_json ''event'' 32 in
      if event = ''operation'' then ts_format_operation_event entry_json out_size
      else if event = ''join'' then
        snprintf_buf out_size (''JOIN client='' @ json_get_for_format entry_json ''client_id'' TS_MAX_CLIENT_ID @
          '' address='' @ json_get_for_format entry_json ''address'' 128)
      else if event = ''leave'' then
        snprintf_buf out_size (''LEAVE client='' @ json_get_for_format entry_json ''client_id'' TS_MAX_CLIENT_ID)
      else [])"

end
