(* ===== verification/Server.thy ===== *)
theory Server
  imports Document Events
begin

text \<open>
  The server, \<open>server.c\<close>: the list of connected clients, the handling of a message, and the
  life of a connection. What the code sends, writes to the save process or prints is returned
  as a list of effects in the order of the calls. Each function is what one thread does; the
  critical sections that the code enters separately are separate definitions, so that another
  thread can run between them.
\<close>

section \<open>State and effects\<close>

text \<open>\<open>cn_fd\<close> identifies the connection; its transport is the target of \<open>ToClient\<close>.\<close>

record TsClientConnection =
  cn_fd :: nat
  cn_client_id :: string
  cn_address :: string

record TsServer =
  sv_host :: string
  sv_port :: int
  sv_document_path :: string
  sv_log_path :: string
  sv_history_limit :: int
  sv_autosave_interval_ms :: int
  sv_server_fd :: int
  sv_stopping :: bool
  sv_next_client_number :: int
  sv_clients :: "TsClientConnection list"
  sv_document :: TsDocument

datatype server_effect =
  ToClient nat TsMessage
| AutosaveSnapshot string int
| AutosaveSaveNow string int
| AutosaveLog string
| AutosaveStop
| Printed string
| CloseFd int

definition print_event :: "string option \<Rightarrow> server_effect list" where
  "print_event message = (case message of Some (c # cs) \<Rightarrow> [Printed (c # cs)] | _ \<Rightarrow> [])"

definition server_log :: "string \<Rightarrow> server_effect list" where
  "server_log entry_json =
     AutosaveLog entry_json # print_event (Some (ts_format_server_event (Some entry_json) 512))"

section \<open>The list of clients\<close>

definition client_id_exists_locked :: "TsServer \<Rightarrow> string \<Rightarrow> bool" where
  "client_id_exists_locked server client_id =
     list_ex (\<lambda>client. cn_client_id client = client_id) (sv_clients server)"

text \<open>The loop over \<open>u1\<close>, \<open>u2\<close>, ...; the increment is undefined at \<open>INT_MAX\<close>.\<close>

function next_free_id :: "TsServer \<Rightarrow> nat \<Rightarrow> (string \<times> TsServer) ub" where
  "next_free_id server out_size =
     (case c_int_inc (sv_next_client_number server) of
        None \<Rightarrow> None
      | Some number \<Rightarrow>
          (let out = snprintf_buf out_size (''u'' @ show_int (sv_next_client_number server));
               server = server\<lparr>sv_next_client_number := number\<rparr> in
           if client_id_exists_locked server out then next_free_id server out_size
           else Some (out, server)))"
  by pat_completeness auto
termination
  by (relation "measure (\<lambda>(server, _). nat (c_int_max - sv_next_client_number server))") auto

declare next_free_id.simps [simp del]

definition choose_client_id :: "TsServer \<Rightarrow> string option \<Rightarrow> nat \<Rightarrow> (string \<times> TsServer) ub" where
  "choose_client_id server requested out_size =
     (case requested of
        Some (c # cs) \<Rightarrow>
          if \<not> client_id_exists_locked server (c # cs)
          then Some (snprintf_buf out_size (c # cs), server)
          else next_free_id server out_size
      | _ \<Rightarrow> next_free_id server out_size)"

definition register_client :: "TsServer \<Rightarrow> TsClientConnection \<Rightarrow> TsServer" where
  "register_client server client = server\<lparr>sv_clients := client # sv_clients server\<rparr>"

fun unlink_client :: "string \<Rightarrow> TsClientConnection list \<Rightarrow> TsClientConnection list" where
  "unlink_client client_id [] = []"
| "unlink_client client_id (cursor # rest) =
     (if cn_client_id cursor = client_id then rest else cursor # unlink_client client_id rest)"

definition unregister_client :: "TsServer \<Rightarrow> string \<Rightarrow> TsServer" where
  "unregister_client server client_id =
     server\<lparr>sv_clients := unlink_client client_id (sv_clients server)\<rparr>"

definition broadcast_message :: "TsServer \<Rightarrow> TsMessage \<Rightarrow> string option \<Rightarrow> server_effect list" where
  "broadcast_message server message exclude_client_id =
     map (\<lambda>client. ToClient (cn_fd client) message)
       (filter (\<lambda>client. Some (cn_client_id client) \<noteq> exclude_client_id) (sv_clients server))"

section \<open>Handling a message\<close>

definition dispatch_message ::
  "TsServer \<Rightarrow> TsClientConnection \<Rightarrow> TsMessage \<Rightarrow> (server_effect list \<times> TsServer) ub" where
  "dispatch_message server client message =
     (if msg_type message = ''OP'' then do {
        (result, doc) \<leftarrow> ts_document_process_operation (sv_document server) (cn_client_id client)
          (msg_op_id message) (msg_base_version message)
          (if msg_has_op message then Some (msg_op message) else None);
        let server = server\<lparr>sv_document := doc\<rparr>;
        Some
          (if res_status result = TS_PROCESS_OK then
             AutosaveSnapshot (case res_snapshot_content result of Some c \<Rightarrow> c | None \<Rightarrow> [])
               (res_snapshot_version result) #
             server_log (res_log_json result) @
             (if res_has_ack result then [ToClient (cn_fd client) (res_ack result)] else []) @
             (if res_has_remote result
              then broadcast_message server (res_remote result) (Some (cn_client_id client)) else [])
           else map (ToClient (cn_fd client)) (take (res_message_count result) (res_messages result)),
           server)
      }
      else if msg_type message = ''SAVE'' then
        (let snapshot = ts_document_snapshot (sv_document server);
             line = ts_format_save_event ''requested'' (Some (cn_client_id client)) (msg_version snapshot)
               (sv_document_path server) 512;
             response = ts_message_init\<lparr>
               msg_type := snprintf_buf TS_MAX_TYPE ''SAVE_QUEUED'', msg_version := msg_version snapshot\<rparr>
         in Some
           (AutosaveSaveNow (case msg_content snapshot of Some c \<Rightarrow> c | None \<Rightarrow> []) (msg_version snapshot) #
            print_event (Some line) @ [ToClient (cn_fd client) response], server))
      else if msg_type message = ''REQUEST_DOC'' then
        Some ([ToClient (cn_fd client) (ts_document_snapshot (sv_document server))], server)
      else if msg_type message = ''PING'' then
        Some ([ToClient (cn_fd client)
          (ts_message_init\<lparr>msg_type := snprintf_buf TS_MAX_TYPE ''PONG''\<rparr>)], server)
      else
        Some ([ToClient (cn_fd client)
          (ts_message_init\<lparr>
             msg_type := snprintf_buf TS_MAX_TYPE ''ERROR'',
             msg_message := snprintf_buf TS_MAX_STATUS
               (''unsupported message type: '' @ msg_type message)\<rparr>)], server))"

section \<open>The life of a connection\<close>

text \<open>\<open>client_thread_main\<close> before its loop: \<open>first\<close> is the first message, or null when receiving
  failed. The result says whether the connection stays.\<close>

definition join_log_entry :: "TsClientConnection \<Rightarrow> string" where
  \<open>join_log_entry client =
     snprintf_buf 512 (''{"event":"join","client_id":"'' @ cn_client_id client @ ''","address":"'' @
       cn_address client @ ''"}'')\<close>

definition leave_log_entry :: "TsClientConnection \<Rightarrow> string" where
  \<open>leave_log_entry client =
     snprintf_buf 512 (''{"event":"leave","client_id":"'' @ cn_client_id client @ ''"}'')\<close>

definition refuse_first_message :: "TsClientConnection \<Rightarrow> server_effect list" where
  "refuse_first_message client =
     [ToClient (cn_fd client)
       (ts_message_init\<lparr>
          msg_type := snprintf_buf TS_MAX_TYPE ''ERROR'',
          msg_message := snprintf_buf TS_MAX_STATUS ''first message must be JOIN''\<rparr>)]"

definition client_thread_hello ::
  "TsServer \<Rightarrow> TsClientConnection \<Rightarrow> TsMessage option \<Rightarrow>
   (bool \<times> TsClientConnection \<times> server_effect list \<times> TsServer) ub" where
  "client_thread_hello server client first =
     (case first of
        None \<Rightarrow> Some (False, client, refuse_first_message client, server)
      | Some message \<Rightarrow>
          if msg_type message \<noteq> ''JOIN'' then
            Some (False, client, refuse_first_message client, server)
          else do {
            (client_id, server) \<leftarrow> choose_client_id server (Some (msg_client_id message)) TS_MAX_CLIENT_ID;
            let client = client\<lparr>cn_client_id := client_id\<rparr>;
            let server = register_client server client;
            let welcome = ts_message_init\<lparr>
              msg_type := snprintf_buf TS_MAX_TYPE ''WELCOME'',
              msg_client_id := snprintf_buf TS_MAX_CLIENT_ID (cn_client_id client)\<rparr>;
            let snapshot = ts_document_snapshot (sv_document server);
            Some (True, client,
              [ToClient (cn_fd client) welcome, ToClient (cn_fd client) snapshot] @
              server_log (join_log_entry client), server)
          })"

definition client_thread_leave :: "TsServer \<Rightarrow> TsClientConnection \<Rightarrow> server_effect list \<times> TsServer" where
  "client_thread_leave server client =
     (server_log (leave_log_entry client), unregister_client server (cn_client_id client))"

section \<open>Start and end of the server\<close>

text \<open>The loops over \<open>argv\<close> from index 1: a name with a value behind it.\<close>

fun find_arg :: "string list \<Rightarrow> string \<Rightarrow> string option" where
  "find_arg (a # v # argv) name = (if a = name then Some v else find_arg (v # argv) name)"
| "find_arg argv name = None"

definition parse_int_arg :: "string list \<Rightarrow> string \<Rightarrow> int \<Rightarrow> int" where
  "parse_int_arg argv name fallback =
     (case find_arg (tl argv) name of Some v \<Rightarrow> atoi v | None \<Rightarrow> fallback)"

definition parse_str_arg :: "string list \<Rightarrow> string \<Rightarrow> string \<Rightarrow> string" where
  "parse_str_arg argv name fallback =
     (case find_arg (tl argv) name of Some v \<Rightarrow> v | None \<Rightarrow> fallback)"

text \<open>The state that \<open>main\<close> builds before it listens: the document from the file's text, with a
  first snapshot for the save process. The cast of the history limit to \<open>size_t\<close> is written out.\<close>

definition server_main_init :: "string list \<Rightarrow> string option \<Rightarrow> server_effect list \<times> TsServer" where
  "server_main_init argv initial_text =
     (let document_path = snprintf_buf 512 (parse_str_arg argv ''--file'' ''shared.c'');
          history_limit = parse_int_arg argv ''--history'' 1000;
          document = ts_document_init
            (Some (case initial_text of Some t \<Rightarrow> t | None \<Rightarrow> []))
            (nat (history_limit mod 18446744073709551616));
          server =
            \<lparr>sv_host = snprintf_buf 128 (parse_str_arg argv ''--host'' ''127.0.0.1''),
             sv_port = parse_int_arg argv ''--port'' 8765,
             sv_document_path = document_path,
             sv_log_path = snprintf_buf 1024 (document_path @ ''.edit.log''),
             sv_history_limit = history_limit,
             sv_autosave_interval_ms = parse_int_arg argv ''--autosave-interval-ms'' 5000,
             sv_server_fd = -1, sv_stopping = False, sv_next_client_number = 1, sv_clients = [],
             sv_document = document\<rparr>
      in ([AutosaveSnapshot (ts_document_content document) (doc_version document)], server))"

definition server_shutdown :: "TsServer \<Rightarrow> server_effect list \<times> TsServer" where
  "server_shutdown server =
     (if sv_stopping server then ([], server)
      else
        (let closed = (if sv_server_fd server \<ge> 0 then [CloseFd (sv_server_fd server)] else []);
             server = server\<lparr>sv_stopping := True, sv_server_fd := (if sv_server_fd server \<ge> 0 then -1 else sv_server_fd server)\<rparr>;
             content = ts_document_content (sv_document server);
             line = ts_format_save_event ''shutdown'' None (doc_version (sv_document server))
               (sv_document_path server) 512
         in (closed @ [AutosaveSaveNow content (doc_version (sv_document server))] @ print_event (Some line) @
             [AutosaveStop], server)))"

end
