(* ===== verification/System.thy ===== *)
theory System
  imports Server ClientState Protocol_Correct
begin

text \<open>
  The whole program: one server, any number of clients, and between each client and the server
  two channels of messages that are delivered in order. An event is one step of one party: a
  client joins or leaves, a user types or saves, the server handles the next message of a client,
  a client handles the next message of the server. Events come in any order. The server's
  handling of one message is one step, as if its threads took turns; what goes wrong when they
  do not is the subject of the last section of theory \<open>System_Correct\<close>.
\<close>

text \<open>Channels and clients are indexed by the connection; \<open>sys_ready\<close> records which clients have
  their first document, because the model lets a user type only from then on.\<close>

record system =
  sys_server :: TsServer
  sys_client :: "nat \<Rightarrow> TsClientState"
  sys_up :: "nat \<Rightarrow> TsMessage list"
  sys_down :: "nat \<Rightarrow> TsMessage list"
  sys_ready :: "nat \<Rightarrow> bool"

datatype sys_event =
  Join nat string string
| Leave nat
| TypeKey nat TsOperation
| SaveKey nat
| ServerReads nat
| ClientReads nat

text \<open>A message as it arrives at the other end, see theory \<open>Protocol_Correct\<close>.\<close>

definition arrive :: "TsMessage \<Rightarrow> TsMessage" where
  "arrive m = m\<lparr>msg_reason := arriving_reason m\<rparr>"

lemma arrive_simps [simp]:
  "msg_type (arrive m) = msg_type m" "msg_client_id (arrive m) = msg_client_id m"
  "msg_op_id (arrive m) = msg_op_id m" "msg_message (arrive m) = msg_message m"
  "msg_base_version (arrive m) = msg_base_version m" "msg_server_version (arrive m) = msg_server_version m"
  "msg_version (arrive m) = msg_version m" "msg_history_start_version (arrive m) = msg_history_start_version m"
  "msg_op (arrive m) = msg_op m" "msg_has_op (arrive m) = msg_has_op m"
  "msg_content (arrive m) = msg_content m"
  by (simp_all add: arrive_def)

definition sent_to :: "nat \<Rightarrow> server_effect list \<Rightarrow> TsMessage list" where
  "sent_to i effects = concat (map (\<lambda>e. case e of ToClient j m \<Rightarrow> if j = i then [m] else [] | _ \<Rightarrow> []) effects)"

definition deliver :: "server_effect list \<Rightarrow> (nat \<Rightarrow> TsMessage list) \<Rightarrow> nat \<Rightarrow> TsMessage list" where
  "deliver effects down = (\<lambda>i. down i @ sent_to i effects)"

definition conn_of :: "TsServer \<Rightarrow> nat \<Rightarrow> TsClientConnection option" where
  "conn_of server i = find (\<lambda>c. cn_fd c = i) (sv_clients server)"

text \<open>The two messages that \<open>client.c\<close> sends by itself.\<close>

definition join_message :: "string \<Rightarrow> TsMessage" where
  "join_message client_id = ts_message_init\<lparr>
     msg_type := snprintf_buf TS_MAX_TYPE ''JOIN'',
     msg_client_id := snprintf_buf TS_MAX_CLIENT_ID client_id\<rparr>"

definition save_message :: TsMessage where
  "save_message = ts_message_init\<lparr>msg_type := snprintf_buf TS_MAX_TYPE ''SAVE''\<rparr>"

definition sys_join :: "nat \<Rightarrow> string \<Rightarrow> string \<Rightarrow> system \<Rightarrow> system ub" where
  "sys_join i client_id address s =
     (if conn_of (sys_server s) i \<noteq> None then Some s
      else do {
        (stays, conn, effects, server) \<leftarrow> client_thread_hello (sys_server s)
          \<lparr>cn_fd = i, cn_client_id = [], cn_address = address\<rparr> (Some (arrive (join_message client_id)));
        Some (s\<lparr>
          sys_server := server,
          sys_client := (sys_client s)(i := ts_client_state_init (Some client_id) True),
          sys_up := (sys_up s)(i := []),
          sys_down := deliver effects ((sys_down s)(i := [])),
          sys_ready := (sys_ready s)(i := False)\<rparr>)
      })"

definition sys_leave :: "nat \<Rightarrow> system \<Rightarrow> system ub" where
  "sys_leave i s =
     (case conn_of (sys_server s) i of
        None \<Rightarrow> Some s
      | Some conn \<Rightarrow>
          (case client_thread_leave (sys_server s) conn of (effects, server) \<Rightarrow>
             Some (s\<lparr>
               sys_server := server,
               sys_up := (sys_up s)(i := []),
               sys_down := (deliver effects (sys_down s))(i := []),
               sys_ready := (sys_ready s)(i := False)\<rparr>)))"

definition sys_type :: "nat \<Rightarrow> TsOperation \<Rightarrow> system \<Rightarrow> system ub" where
  "sys_type i op s =
     (if conn_of (sys_server s) i = None \<or> \<not> sys_ready s i then Some s
      else do {
        (rc, oid, st, sent) \<leftarrow> ts_client_state_queue_operation True (sys_client s i) op;
        Some (s\<lparr>
          sys_client := (sys_client s)(i := st),
          sys_up := (sys_up s)(i := sys_up s i @ sent)\<rparr>)
      })"

definition sys_save :: "nat \<Rightarrow> system \<Rightarrow> system ub" where
  "sys_save i s =
     (if conn_of (sys_server s) i = None then Some s
      else Some (s\<lparr>sys_up := (sys_up s)(i := sys_up s i @ [save_message])\<rparr>))"

definition sys_server_reads :: "nat \<Rightarrow> system \<Rightarrow> system ub" where
  "sys_server_reads i s =
     (case (sys_up s i, conn_of (sys_server s) i) of
        (m # rest, Some conn) \<Rightarrow> do {
          (effects, server) \<leftarrow> dispatch_message (sys_server s) conn (arrive m);
          Some (s\<lparr>
            sys_server := server,
            sys_up := (sys_up s)(i := rest),
            sys_down := deliver effects (sys_down s)\<rparr>)
        }
      | _ \<Rightarrow> Some s)"

definition sys_client_reads :: "nat \<Rightarrow> system \<Rightarrow> system ub" where
  "sys_client_reads i s =
     (case (sys_down s i, conn_of (sys_server s) i) of
        (m # rest, Some conn) \<Rightarrow> do {
          (st, sent) \<leftarrow> ts_client_state_handle_message (sys_client s i) (arrive m);
          Some (s\<lparr>
            sys_client := (sys_client s)(i := st),
            sys_up := (sys_up s)(i := sys_up s i @ sent),
            sys_down := (sys_down s)(i := rest),
            sys_ready := (sys_ready s)(i := sys_ready s i \<or> msg_type m = ''DOC_STATE'')\<rparr>)
        }
      | _ \<Rightarrow> Some s)"

definition sys_step :: "sys_event \<Rightarrow> system \<Rightarrow> system ub" where
  "sys_step e s =
     (case e of
        Join i client_id address \<Rightarrow> sys_join i client_id address s
      | Leave i \<Rightarrow> sys_leave i s
      | TypeKey i op \<Rightarrow> sys_type i op s
      | SaveKey i \<Rightarrow> sys_save i s
      | ServerReads i \<Rightarrow> sys_server_reads i s
      | ClientReads i \<Rightarrow> sys_client_reads i s)"

definition sys_init :: "TsServer \<Rightarrow> system" where
  "sys_init server =
     \<lparr>sys_server = server, sys_client = (\<lambda>_. zero_client_state), sys_up = (\<lambda>_. []),
      sys_down = (\<lambda>_. []), sys_ready = (\<lambda>_. False)\<rparr>"

end
