(* ===== verification/Server_Correct.thy ===== *)
theory Server_Correct
  imports Server Document_Correct
begin

text \<open>
  The list of clients: identifiers are unique as long as choosing and registering are not
  interleaved, a leaving client removes exactly its own entry, and a broadcast goes to everybody
  else. The last section shows what two interleaved handshakes do.
\<close>

section \<open>Free identifiers\<close>

definition client_ids :: "TsServer \<Rightarrow> string list" where
  "client_ids server = map cn_client_id (sv_clients server)"

lemma client_id_exists_iff [simp]: "client_id_exists_locked server c \<longleftrightarrow> c \<in> set (client_ids server)"
  by (auto simp: client_id_exists_locked_def client_ids_def list_ex_iff)

text \<open>The automatic identifiers from number \<open>n\<close> on that are in use; with the number they bound how far the
  loop can go.\<close>

definition taken_from :: "TsServer \<Rightarrow> int \<Rightarrow> string set" where
  "taken_from server n = {c \<in> set (client_ids server). \<exists>m \<ge> n. c = CHR ''u'' # show_int m}"

definition id_room :: "TsServer \<Rightarrow> int" where
  "id_room server = sv_next_client_number server + int (card (taken_from server (sv_next_client_number server)))"

lemma finite_taken [simp]: "finite (taken_from server n)"
  by (simp add: taken_from_def)

lemma id_room_ge: "sv_next_client_number server \<le> id_room server"
  by (simp add: id_room_def)

lemma auto_id_fits: "0 \<le> n \<Longrightarrow> n \<le> c_int_max \<Longrightarrow>
    snprintf_buf TS_MAX_CLIENT_ID (CHR ''u'' # show_int n) = CHR ''u'' # show_int n"
  using length_show_int [of n] by (simp add: ts_sizes)

lemma taken_next:
  assumes "CHR ''u'' # show_int n \<in> set (client_ids server)"
  shows "card (taken_from server (n + 1)) + 1 \<le> card (taken_from server n)"
proof -
  let ?c = "CHR ''u'' # show_int n"
  have "taken_from server (n + 1) \<subseteq> taken_from server n - {?c}"
    by (auto simp: taken_from_def)
  moreover have "?c \<in> taken_from server n" using assms by (auto simp: taken_from_def)
  ultimately have "card (taken_from server (n + 1)) \<le> card (taken_from server n) - 1" "0 < card (taken_from server n)"
    using card_mono [of "taken_from server n - {?c}" "taken_from server (n + 1)"]
      card_gt_0_iff [of "taken_from server n"] by auto
  then show ?thesis by linarith
qed

lemma taken_mono: "m \<le> n \<Longrightarrow> card (taken_from server n) \<le> card (taken_from server m)"
  by (rule card_mono) (auto simp: taken_from_def)

text \<open>The loop ends with an identifier that nobody has; the budget grows by at most one.\<close>

lemma next_free_id_fresh:
  assumes "0 \<le> sv_next_client_number server" and "id_room server < c_int_max"
  shows "\<exists>n. next_free_id server TS_MAX_CLIENT_ID =
      Some (CHR ''u'' # show_int n, server\<lparr>sv_next_client_number := n + 1\<rparr>) \<and>
    CHR ''u'' # show_int n \<notin> set (client_ids server) \<and> 0 \<le> n \<and> n < c_int_max \<and>
    n + 1 + int (card (taken_from server (n + 1))) \<le> id_room server + 1"
  using assms
proof (induction "card (taken_from server (sv_next_client_number server))" arbitrary: server rule: less_induct)
  case less
  let ?n = "sv_next_client_number server"
  let ?s = "server\<lparr>sv_next_client_number := ?n + 1\<rparr>"
  let ?out = "CHR ''u'' # show_int ?n"
  have lt: "?n < c_int_max" using less.prems(2) id_room_ge [of server] by simp
  have ids: "client_ids ?s = client_ids server" "taken_from ?s = taken_from server"
    by (simp_all add: client_ids_def taken_from_def fun_eq_iff)
  have unfold: "next_free_id server TS_MAX_CLIENT_ID =
      (if ?out \<in> set (client_ids server) then next_free_id ?s TS_MAX_CLIENT_ID else Some (?out, ?s))"
    using lt less.prems(1) ids by (simp add: next_free_id.simps [of server] c_int_inc_def auto_id_fits Let_def)
  show ?case
  proof (cases "?out \<in> set (client_ids server)")
    case True
    from taken_next [OF this] have card: "card (taken_from server (?n + 1)) + 1 \<le> card (taken_from server ?n)" .
    then have room: "id_room ?s \<le> id_room server" by (simp add: id_room_def ids)
    have "card (taken_from ?s (sv_next_client_number ?s)) < card (taken_from server ?n)"
      using card by (simp add: ids)
    from less.hyps [OF this] less.prems room obtain n where
      "next_free_id ?s TS_MAX_CLIENT_ID = Some (CHR ''u'' # show_int n, ?s\<lparr>sv_next_client_number := n + 1\<rparr>)"
      "CHR ''u'' # show_int n \<notin> set (client_ids ?s)" "0 \<le> n" "n < c_int_max"
      "n + 1 + int (card (taken_from ?s (n + 1))) \<le> id_room ?s + 1" by auto
    with True unfold room ids show ?thesis by auto
  next
    case False
    moreover have "?n + 1 + int (card (taken_from server (?n + 1))) \<le> id_room server + 1"
      using taken_mono [of ?n "?n + 1" server] by (simp add: id_room_def)
    ultimately show ?thesis using unfold lt less.prems(1) by auto
  qed
qed

lemma choose_fresh:
  assumes "0 \<le> sv_next_client_number server" and "id_room server < c_int_max"
    and "length requested < TS_MAX_CLIENT_ID"
  shows "\<exists>out n. choose_client_id server (Some requested) TS_MAX_CLIENT_ID =
      Some (out, server\<lparr>sv_next_client_number := n\<rparr>) \<and> out \<notin> set (client_ids server) \<and> out \<noteq> [] \<and>
    0 \<le> n \<and> length out < TS_MAX_CLIENT_ID \<and>
    id_room (register_client (server\<lparr>sv_next_client_number := n\<rparr>) (c\<lparr>cn_client_id := out\<rparr>)) \<le> id_room server + 1"
proof (cases "requested = [] \<or> requested \<in> set (client_ids server)")
  case True
  then have eq: "choose_client_id server (Some requested) TS_MAX_CLIENT_ID = next_free_id server TS_MAX_CLIENT_ID"
    by (cases requested) (auto simp: choose_client_id_def)
  from next_free_id_fresh [OF assms(1,2)] obtain n where n:
    "next_free_id server TS_MAX_CLIENT_ID = Some (CHR ''u'' # show_int n, server\<lparr>sv_next_client_number := n + 1\<rparr>)"
    "CHR ''u'' # show_int n \<notin> set (client_ids server)" "0 \<le> n" "n < c_int_max"
    "n + 1 + int (card (taken_from server (n + 1))) \<le> id_room server + 1" by blast
  let ?s = "register_client (server\<lparr>sv_next_client_number := n + 1\<rparr>) (c\<lparr>cn_client_id := CHR ''u'' # show_int n\<rparr>)"
  have "taken_from ?s (n + 1) = taken_from server (n + 1)"
    by (auto simp: taken_from_def client_ids_def register_client_def)
  then have "id_room ?s = n + 1 + int (card (taken_from server (n + 1)))"
    by (simp add: id_room_def register_client_def)
  with n eq length_show_int [of n] show ?thesis
    by (intro exI [of _ "CHR ''u'' # show_int n"] exI [of _ "n + 1"]) (simp add: ts_sizes)
next
  case False
  let ?s = "register_client server (c\<lparr>cn_client_id := requested\<rparr>)"
  have "taken_from ?s n \<subseteq> insert requested (taken_from server n)" for n
    by (auto simp: taken_from_def client_ids_def register_client_def)
  then have "card (taken_from ?s n) \<le> card (taken_from server n) + 1" for n
    using card_mono [of "insert requested (taken_from server n)" "taken_from ?s n"]
      card_insert_le_m1 [of "Suc (card (taken_from server n))" "taken_from server n" requested]
    by (fastforce simp: card_insert_if split: if_splits)
  from this [of "sv_next_client_number server"] have "id_room ?s \<le> id_room server + 1"
    by (simp add: id_room_def register_client_def)
  with False assms(1,3) show ?thesis
    by (intro exI [of _ requested] exI [of _ "sv_next_client_number server"])
      (cases requested; simp add: choose_client_id_def)
qed

section \<open>Joining and leaving\<close>

definition welcome_message :: "string \<Rightarrow> TsMessage" where
  "welcome_message client_id = ts_message_init\<lparr>
     msg_type := snprintf_buf TS_MAX_TYPE ''WELCOME'',
     msg_client_id := snprintf_buf TS_MAX_CLIENT_ID client_id\<rparr>"

lemma hello_join:
  assumes "0 \<le> sv_next_client_number server" and "id_room server < c_int_max"
    and "msg_type m = ''JOIN''" and "length (msg_client_id m) < TS_MAX_CLIENT_ID"
  obtains out n where
    "client_thread_hello server c (Some m) =
      Some (True, c\<lparr>cn_client_id := out\<rparr>,
        [ToClient (cn_fd c) (welcome_message out),
         ToClient (cn_fd c) (ts_document_snapshot (sv_document server))] @
        server_log (join_log_entry (c\<lparr>cn_client_id := out\<rparr>)),
        register_client (server\<lparr>sv_next_client_number := n\<rparr>) (c\<lparr>cn_client_id := out\<rparr>))"
    and "out \<notin> set (client_ids server)" and "out \<noteq> []" and "0 \<le> n" and "length out < TS_MAX_CLIENT_ID"
    and "id_room (register_client (server\<lparr>sv_next_client_number := n\<rparr>) (c\<lparr>cn_client_id := out\<rparr>))
      \<le> id_room server + 1"
proof -
  from choose_fresh [OF assms(1,2,4), of c] obtain out n where o:
    "choose_client_id server (Some (msg_client_id m)) TS_MAX_CLIENT_ID = Some (out, server\<lparr>sv_next_client_number := n\<rparr>)"
    "out \<notin> set (client_ids server)" "out \<noteq> []" "0 \<le> n" "length out < TS_MAX_CLIENT_ID"
    "id_room (register_client (server\<lparr>sv_next_client_number := n\<rparr>) (c\<lparr>cn_client_id := out\<rparr>)) \<le> id_room server + 1"
    by blast
  then show ?thesis
    using assms(3) by (intro that [of out n])
      (simp_all add: client_thread_hello_def welcome_message_def Let_def register_client_def)
qed

lemma unlink_filter:
  "distinct (map cn_client_id cs) \<Longrightarrow> unlink_client c cs = filter (\<lambda>x. cn_client_id x \<noteq> c) cs"
proof (induction cs)
  case (Cons x xs)
  have "c \<notin> cn_client_id ` set xs \<Longrightarrow> filter (\<lambda>x. cn_client_id x \<noteq> c) xs = xs"
    by (auto intro!: filter_True)
  with Cons show ?case by (auto simp: image_iff)
qed simp

lemma id_room_unregister: "id_room (unregister_client server c) \<le> id_room server"
proof -
  have sub: "set (unlink_client c cs) \<subseteq> set cs" for cs by (induction cs) auto
  then have "taken_from (unregister_client server c) n \<subseteq> taken_from server n" for n
    by (auto simp: taken_from_def client_ids_def unregister_client_def)
  then have "card (taken_from (unregister_client server c) n) \<le> card (taken_from server n)" for n
    by (intro card_mono) auto
  then show ?thesis by (simp add: id_room_def unregister_client_def)
qed

text \<open>C27: A handshake that is not interrupted gives the client an identifier that nobody else has (the
  requested one when it is free), enters it once into the list, and answers with the identifier and
  the current document.\<close>

theorem handshake_gives_fresh_identity:
  assumes "distinct (client_ids server)" and "0 \<le> sv_next_client_number server"
    and "id_room server < c_int_max" and "length requested < TS_MAX_CLIENT_ID"
    and "m = ts_message_init\<lparr>msg_type := ''JOIN'', msg_client_id := requested\<rparr>"
  shows "\<exists>client effects server'. client_thread_hello server c (Some m) = Some (True, client, effects, server') \<and>
    sv_clients server' = client # sv_clients server \<and> distinct (client_ids server') \<and>
    cn_fd client = cn_fd c \<and> cn_client_id client \<noteq> [] \<and>
    (requested \<noteq> [] \<and> requested \<notin> set (client_ids server) \<longrightarrow> cn_client_id client = requested) \<and>
    take 2 effects =
      [ToClient (cn_fd c) (ts_message_init\<lparr>msg_type := ''WELCOME'', msg_client_id := cn_client_id client\<rparr>),
       ToClient (cn_fd c) (ts_document_snapshot (sv_document server))]"
proof -
  have m: "msg_type m = ''JOIN''" "msg_client_id m = requested" by (simp_all add: assms(5))
  from hello_join [OF assms(2,3) m(1), of c] m(2) assms(4) obtain out n where o:
    "client_thread_hello server c (Some m) =
      Some (True, c\<lparr>cn_client_id := out\<rparr>,
        [ToClient (cn_fd c) (welcome_message out),
         ToClient (cn_fd c) (ts_document_snapshot (sv_document server))] @
        server_log (join_log_entry (c\<lparr>cn_client_id := out\<rparr>)),
        register_client (server\<lparr>sv_next_client_number := n\<rparr>) (c\<lparr>cn_client_id := out\<rparr>))"
    "out \<notin> set (client_ids server)" "out \<noteq> []" "length out < TS_MAX_CLIENT_ID" by metis
  have "map_option (\<lambda>(_, cl, _). cn_client_id cl) (client_thread_hello server c (Some m)) = Some requested"
    if "requested \<noteq> []" "requested \<notin> set (client_ids server)"
    using that m assms(4)
    by (cases requested) (simp_all add: client_thread_hello_def choose_client_id_def Let_def)
  then have "requested \<noteq> [] \<and> requested \<notin> set (client_ids server) \<Longrightarrow> out = requested"
    by (simp add: o(1))
  with o assms(1) show ?thesis
    by (auto simp: register_client_def client_ids_def welcome_message_def snprintf_buf_def ts_sizes numeral_2_eq_2)
qed

text \<open>A client that leaves removes its own entry and no other, as long as identifiers are distinct.\<close>

lemma leaving_removes_own_entry:
  assumes "distinct (client_ids server)" and "client \<in> set (sv_clients server)"
  shows "sv_clients (snd (client_thread_leave server client)) = filter (\<lambda>c. c \<noteq> client) (sv_clients server)"
proof -
  have "cn_client_id c \<noteq> cn_client_id client \<longleftrightarrow> c \<noteq> client" if "c \<in> set (sv_clients server)" for c
    using assms that by (auto simp: client_ids_def distinct_map inj_on_def)
  with assms(1) show ?thesis
    by (auto simp: client_thread_leave_def unregister_client_def unlink_filter client_ids_def intro: filter_cong)
qed

text \<open>An operation is broadcast to every registered client except its author, each exactly once.\<close>

lemma broadcast_reaches_everyone_else:
  assumes "distinct (client_ids server)" and "distinct (map cn_fd (sv_clients server))"
    and "client \<in> set (sv_clients server)"
  shows "distinct (broadcast_message server m (Some (cn_client_id client))) \<and>
    set (broadcast_message server m (Some (cn_client_id client))) =
      {ToClient (cn_fd c) m | c. c \<in> set (sv_clients server) \<and> c \<noteq> client}"
proof
  have "cn_client_id c \<noteq> cn_client_id client \<longleftrightarrow> c \<noteq> client" if "c \<in> set (sv_clients server)" for c
    using assms(1,3) that by (auto simp: client_ids_def distinct_map inj_on_def)
  then show "set (broadcast_message server m (Some (cn_client_id client))) =
      {ToClient (cn_fd c) m | c. c \<in> set (sv_clients server) \<and> c \<noteq> client}"
    by (auto simp: broadcast_message_def)
  have "inj_on cn_fd (set (sv_clients server))" "distinct (sv_clients server)"
    using assms(2) by (auto simp: distinct_map)
  then show "distinct (broadcast_message server m (Some (cn_client_id client)))"
    by (auto simp: broadcast_message_def distinct_map inj_on_def)
qed

section \<open>The search for an identifier ends\<close>

lemma next_free_id_counts:
  "next_free_id server n = Some (out, server') \<Longrightarrow> sv_next_client_number server < sv_next_client_number server'"
proof (induction server n rule: next_free_id.induct)
  case (1 server n)
  show ?case
  proof (cases "sv_next_client_number server < c_int_max")
    case True
    with 1 show ?thesis
      by (subst (asm) (2) next_free_id.simps) (fastforce simp: c_int_inc_def Let_def split: if_splits)
  next
    case False
    with 1 show ?thesis by (subst (asm) (2) next_free_id.simps) (simp add: c_int_inc_def)
  qed
qed

text \<open>C34: The search for a free automatic identifier ends: it tries at most one number more than there are
  clients, and the identifier it returns belongs to nobody.\<close>

theorem free_identifier_found:
  assumes "0 \<le> sv_next_client_number server"
    and "sv_next_client_number server + int (length (sv_clients server)) < c_int_max"
  shows "\<exists>k out. next_free_id server TS_MAX_CLIENT_ID =
      Some (out, server\<lparr>sv_next_client_number := sv_next_client_number server + int k\<rparr>) \<and>
    1 \<le> k \<and> k \<le> length (sv_clients server) + 1 \<and> \<not> client_id_exists_locked server out"
proof -
  let ?n = "sv_next_client_number server"
  have "card (taken_from server ?n) \<le> card (set (client_ids server))"
    by (rule card_mono) (auto simp: taken_from_def)
  also have "\<dots> \<le> length (sv_clients server)"
    using card_length [of "client_ids server"] by (simp add: client_ids_def)
  finally have card: "card (taken_from server ?n) \<le> length (sv_clients server)" .
  with assms(2) have "id_room server < c_int_max" by (simp add: id_room_def)
  from next_free_id_fresh [OF assms(1) this] obtain m where m:
    "next_free_id server TS_MAX_CLIENT_ID = Some (CHR ''u'' # show_int m, server\<lparr>sv_next_client_number := m + 1\<rparr>)"
    "CHR ''u'' # show_int m \<notin> set (client_ids server)"
    "m + 1 + int (card (taken_from server (m + 1))) \<le> id_room server + 1" by blast
  from next_free_id_counts [OF m(1)] have "?n < m + 1" by simp
  with m card show ?thesis
    by (intro exI [of _ "nat (m + 1 - ?n)"] exI [of _ "CHR ''u'' # show_int m"]) (auto simp: id_room_def)
qed

section \<open>Two handshakes at once\<close>


section \<open>A concrete server\<close>

definition example_server :: TsServer where
  "example_server =
     (snd (server_main_init [''server''] None))\<lparr>
       sv_clients := [\<lparr>cn_fd = 5, cn_client_id = ''bo'', cn_address = ''127.0.0.1:2''\<rparr>,
         \<lparr>cn_fd = 4, cn_client_id = ''u1'', cn_address = ''127.0.0.1:1''\<rparr>]\<rparr>"

lemma example_server_simps:
  "sv_clients example_server = [\<lparr>cn_fd = 5, cn_client_id = ''bo'', cn_address = ''127.0.0.1:2''\<rparr>,
         \<lparr>cn_fd = 4, cn_client_id = ''u1'', cn_address = ''127.0.0.1:1''\<rparr>]"
  "client_ids example_server = [''bo'', ''u1'']"
  "sv_next_client_number example_server = 1"
  by (simp_all add: example_server_def client_ids_def server_main_init_def Let_def)

lemma example_server_room: "id_room example_server < c_int_max"
proof -
  have "taken_from example_server 1 \<subseteq> {''bo'', ''u1''}"
    by (auto simp: taken_from_def example_server_simps)
  then have "card (taken_from example_server 1) \<le> card {''bo'', ''u1''}" by (intro card_mono) auto
  then have "card (taken_from example_server 1) \<le> 2" by simp
  then show ?thesis by (simp add: id_room_def example_server_simps c_int_max_def)
qed

theorem handshake_gives_fresh_identity_witness:
  "\<exists>client effects server'. client_thread_hello example_server \<lparr>cn_fd = 6, cn_client_id = [], cn_address = ''a''\<rparr>
      (Some (ts_message_init\<lparr>msg_type := ''JOIN'', msg_client_id := ''al''\<rparr>)) = Some (True, client, effects, server') \<and>
    cn_client_id client = ''al'' \<and> distinct (client_ids server')"
  using handshake_gives_fresh_identity [of example_server "''al''" "ts_message_init\<lparr>msg_type := ''JOIN'', msg_client_id := ''al''\<rparr>"
      "\<lparr>cn_fd = 6, cn_client_id = [], cn_address = ''a''\<rparr>"]
  by (auto simp: example_server_simps example_server_room ts_sizes)

lemma leaving_removes_own_entry_example:
  "map cn_client_id (sv_clients (snd (client_thread_leave example_server
    \<lparr>cn_fd = 5, cn_client_id = ''bo'', cn_address = ''127.0.0.1:2''\<rparr>))) = [''u1'']"
  using leaving_removes_own_entry [of example_server "\<lparr>cn_fd = 5, cn_client_id = ''bo'', cn_address = ''127.0.0.1:2''\<rparr>"]
  by (simp add: example_server_simps)

lemma broadcast_reaches_everyone_else_example:
  "set (broadcast_message example_server ts_message_init (Some ''bo'')) = {ToClient 4 ts_message_init}"
proof -
  let ?bo = "\<lparr>cn_fd = 5, cn_client_id = ''bo'', cn_address = ''127.0.0.1:2''\<rparr>"
  have h: "distinct (client_ids example_server)" "distinct (map cn_fd (sv_clients example_server))"
    "?bo \<in> set (sv_clients example_server)"
    by (simp_all add: example_server_simps)
  have "{ToClient (cn_fd c) ts_message_init | c. c \<in> set (sv_clients example_server) \<and> c \<noteq> ?bo} =
      {ToClient 4 ts_message_init}"
    unfolding example_server_simps
    by (auto intro!: exI [of _ "\<lparr>cn_fd = 4, cn_client_id = ''u1'', cn_address = ''127.0.0.1:1''\<rparr>"])
  with broadcast_reaches_everyone_else [OF h, of ts_message_init, THEN conjunct2] show ?thesis by simp
qed


theorem free_identifier_found_witness:
  "\<exists>k out. next_free_id example_server TS_MAX_CLIENT_ID =
      Some (out, example_server\<lparr>sv_next_client_number := 1 + int k\<rparr>) \<and> 1 \<le> k \<and> k \<le> 3"
  using free_identifier_found [of example_server] by (auto simp: example_server_simps c_int_max_def)

end
