(* ===== verification/System_Inv.thy ===== *)
theory System_Inv
  imports System Server_Correct ClientState_Correct
begin

text \<open>
  The invariant of the whole program and that every event keeps it: what the channels between the
  server and a client hold is exactly what the client needs to catch up, one operation of a client
  is under way at most, and its replica is a version of the server's text.
\<close>

section \<open>What a channel to a client holds\<close>

text \<open>\<open>H\<close> is the list of operations the server has applied so far, \<open>xs\<close> the characters it started
  with; version \<open>k\<close> of the text is the replay of the first \<open>k\<close> operations.\<close>

definition text_at :: "TsOperation list \<Rightarrow> string list \<Rightarrow> int \<Rightarrow> string list" where
  "text_at H xs k = replay (map edit_of (take (nat k) H)) xs"

definition update_ok :: "TsOperation list \<Rightarrow> TsMessage \<Rightarrow> int \<Rightarrow> bool" where
  "update_ok H m k \<longleftrightarrow> (msg_type m = ''ACK'' \<or> msg_type m = ''REMOTE_OP'') \<and> msg_has_op m \<and>
     0 \<le> k \<and> nat k < length H \<and> msg_op m = H ! nat k \<and> msg_version m = k + 1"

definition snapshot_ok :: "TsOperation list \<Rightarrow> string list \<Rightarrow> TsMessage \<Rightarrow> bool" where
  "snapshot_ok H xs m \<longleftrightarrow> msg_type m = ''DOC_STATE'' \<and> 0 \<le> msg_version m \<and> nat (msg_version m) \<le> length H \<and>
     (\<exists>t. msg_content m = Some t \<and> valid_utf8 t \<and> utf8_chars t = text_at H xs (msg_version m))"

text \<open>A client at version \<open>v\<close> (null before its first document) that handles the messages of \<open>q\<close> gets
  every later version once and in order, and ends at the last one.\<close>

fun follows :: "TsOperation list \<Rightarrow> string list \<Rightarrow> int option \<Rightarrow> TsMessage list \<Rightarrow> bool" where
  "follows H xs v [] \<longleftrightarrow> v = Some (int (length H))"
| "follows H xs v (m # q) \<longleftrightarrow>
     (case v of
        None \<Rightarrow> msg_type m = ''WELCOME'' \<and> follows H xs None q \<or>
                snapshot_ok H xs m \<and> follows H xs (Some (msg_version m)) q
      | Some k \<Rightarrow> msg_type m = ''SAVE_QUEUED'' \<and> follows H xs v q \<or>
                  update_ok H m k \<and> follows H xs (Some (k + 1)) q)"

lemma text_at_snoc: "nat k \<le> length H \<Longrightarrow> text_at (H @ [op]) xs k = text_at H xs k"
  by (simp add: text_at_def)

lemma text_at_step:
  assumes "0 \<le> k" and "nat k < length H"
  shows "text_at H xs (k + 1) = apply_edit (edit_of (H ! nat k)) (text_at H xs k)"
proof -
  have "nat (k + 1) = Suc (nat k)" using assms(1) by simp
  with assms(2) show ?thesis by (simp add: text_at_def take_Suc_conv_app_nth)
qed

lemma update_ok_snoc: "update_ok H m k \<Longrightarrow> update_ok (H @ [op]) m k"
  by (auto simp: update_ok_def nth_append)

lemma snapshot_ok_snoc: "snapshot_ok H xs m \<Longrightarrow> snapshot_ok (H @ [op]) xs m"
  by (auto simp: snapshot_ok_def text_at_snoc)

lemma follows_le: "follows H xs (Some k) q \<Longrightarrow> k \<le> int (length H)"
  by (induction q arbitrary: k) (auto simp: update_ok_def)

lemma follows_update:
  assumes "follows H xs v q" and "msg_type m = ''ACK'' \<or> msg_type m = ''REMOTE_OP''"
    and "msg_has_op m" and "msg_op m = op" and "msg_version m = int (length H) + 1"
  shows "follows (H @ [op]) xs v (q @ [m])"
  using assms
proof (induction q arbitrary: v)
  case Nil
  then show ?case by (auto simp: update_ok_def)
next
  case (Cons a q)
  then show ?case by (auto split: option.splits intro: update_ok_snoc snapshot_ok_snoc)
qed

lemma follows_saved: "follows H xs v q \<Longrightarrow> msg_type m = ''SAVE_QUEUED'' \<Longrightarrow> follows H xs v (q @ [m])"
  by (induction q arbitrary: v) (auto split: option.splits)

section \<open>The invariant of one client\<close>

definition key_op :: "TsOperation \<Rightarrow> bool" where
  "key_op op \<longleftrightarrow> good_op op \<and> op_kind op \<noteq> TS_OP_INVALID"

definition requests :: "TsMessage list \<Rightarrow> TsMessage list" where
  "requests up = filter (\<lambda>m. msg_type m = ''OP'') up"

definition acks :: "TsMessage list \<Rightarrow> TsMessage list" where
  "acks down = filter (\<lambda>m. msg_type m = ''ACK'') down"

lemma requests_simps [simp]:
  "requests [] = []" "requests (a @ b) = requests a @ requests b"
  "requests (m # a) = (if msg_type m = ''OP'' then [m] else []) @ requests a"
  by (simp_all add: requests_def)

lemma acks_simps [simp]:
  "acks [] = []" "acks (a @ b) = acks a @ acks b"
  "acks (m # a) = (if msg_type m = ''ACK'' then [m] else []) @ acks a"
  by (simp_all add: acks_def)

text \<open>The operation in flight is under way: its request is in the channel to the server, or its
  acknowledgement in the channel back, and never both.\<close>

definition request_ok :: "TsOperation list \<Rightarrow> string \<Rightarrow> TsMessage \<Rightarrow> bool" where
  "request_ok H oid m \<longleftrightarrow> msg_op_id m = oid \<and> msg_has_op m \<and> key_op (msg_op m) \<and>
     0 \<le> msg_base_version m \<and> msg_base_version m \<le> int (length H)"

definition under_way :: "TsOperation list \<Rightarrow> string \<Rightarrow> TsMessage list \<Rightarrow> TsMessage list \<Rightarrow> bool" where
  "under_way H oid up down \<longleftrightarrow>
     (\<exists>m. requests up = [m] \<and> request_ok H oid m \<and> acks down = []) \<or>
     (\<exists>m. requests up = [] \<and> acks down = [m] \<and> msg_op_id m = oid)"

definition client_inv :: "nat \<Rightarrow> TsOperation list \<Rightarrow> string list \<Rightarrow> TsClientState \<Rightarrow> TsMessage list \<Rightarrow>
    TsMessage list \<Rightarrow> bool \<Rightarrow> bool" where
  "client_inv n H xs st up down ready \<longleftrightarrow>
     wf_client st \<and> cs_next_op_number st \<le> int n + 1 \<and>
     list_all (\<lambda>p. key_op (po_op p)) (cs_queue st) \<and>
     list_all (\<lambda>m. msg_type m = ''OP'' \<or> msg_type m = ''SAVE'') up \<and>
     follows H xs (if ready then Some (cs_version st) else None) down \<and>
     (ready \<longrightarrow> valid_utf8 (cs_content st) \<and> 0 \<le> cs_version st \<and>
       utf8_chars (cs_content st) = text_at H xs (cs_version st)) \<and>
     (\<not> ready \<longrightarrow> \<not> cs_has_inflight st) \<and>
     (if cs_has_inflight st
      then length (po_op_id (cs_inflight st)) < TS_MAX_OP_ID \<and> under_way H (po_op_id (cs_inflight st)) up down
      else requests up = [] \<and> acks down = [] \<and> cs_queue st = [])"

lemma under_way_snoc: "under_way H oid up down \<Longrightarrow> under_way (H @ [op]) oid up down"
  by (auto simp: under_way_def request_ok_def)

lemma client_inv_version:
  "client_inv n H xs st up down True \<Longrightarrow> cs_version st \<le> int (length H)"
  by (auto simp: client_inv_def dest: follows_le)

lemma client_inv_mono: "client_inv n H xs st up down ready \<Longrightarrow> client_inv (Suc n) H xs st up down ready"
  by (auto simp: client_inv_def)

text \<open>The pump restores the invariant of a client whose slot has just become free.\<close>

lemma client_inv_pump:
  assumes wf: "wf_client u" "cs_next_op_number u \<le> int n + 1" "list_all (\<lambda>p. key_op (po_op p)) (cs_queue u)"
    and up: "list_all (\<lambda>m. msg_type m = ''OP'' \<or> msg_type m = ''SAVE'') up" "requests up = []" "acks down = []"
    and f: "follows H xs (Some (cs_version u)) down"
    and c: "valid_utf8 (cs_content u)" "0 \<le> cs_version u" "utf8_chars (cs_content u) = text_at H xs (cs_version u)"
    and free: "\<not> cs_has_inflight u"
  shows "client_inv n H xs (fst (state_pump u)) (up @ snd (state_pump u)) down True"
proof (cases rule: pump_cases [of u])
  case idle
  with assms show ?thesis by (auto simp: client_inv_def wf_client_def)
next
  case (send p ps)
  have p: "length (po_op_id p) < TS_MAX_OP_ID" "key_op (po_op p)"
    using wf(1,3) send(2) by (auto simp: wf_client_def)
  have "wf_client (fst (state_pump u))" using wf(1) by (rule pump_wf)
  moreover have "request_ok H (po_op_id p) (op_message u p)"
    using p c(2) follows_le [OF f] by (simp add: request_ok_def op_message_def)
  ultimately show ?thesis
    using send wf(2,3) up f c p
    by (simp add: client_inv_def under_way_def) (simp add: op_message_def)
qed

text \<open>The same when the slot of a client in order becomes free.\<close>

lemma client_inv_settle:
  assumes inv: "client_inv n H xs st up down0 ready" and k: "keeps st u"
    and "requests up = []" "acks down = []" and "follows H xs (Some (cs_version u)) down"
    and "valid_utf8 (cs_content u)" "0 \<le> cs_version u" "utf8_chars (cs_content u) = text_at H xs (cs_version u)"
    and "\<not> cs_has_inflight u"
  shows "client_inv n H xs (fst (state_pump u)) (up @ snd (state_pump u)) down True"
proof (rule client_inv_pump)
  from inv have st: "wf_client st" "cs_next_op_number st \<le> int n + 1"
    "list_all (\<lambda>p. key_op (po_op p)) (cs_queue st)"
    "list_all (\<lambda>m. msg_type m = ''OP'' \<or> msg_type m = ''SAVE'') up"
    by (simp_all add: client_inv_def)
  show "wf_client u" using st(1) keeps_wf [OF k] by simp
  show "cs_next_op_number u \<le> int n + 1" using st(2) k by (simp add: keeps_def)
  show "list_all (\<lambda>p. key_op (po_op p)) (cs_queue u)" using st(3) k by (simp add: keeps_def)
  show "list_all (\<lambda>m. msg_type m = ''OP'' \<or> msg_type m = ''SAVE'') up" by (rule st(4))
qed (rule assms)+

text \<open>A client that has an operation under way keeps it when the other parts of its state change.\<close>

lemma client_inv_keep:
  assumes "client_inv n H xs st up down ready" and "keeps st st'"
    and "cs_has_inflight st' = cs_has_inflight st" "cs_inflight st' = cs_inflight st"
    and "acks down' = acks down"
    and "follows H' xs (if ready' then Some (cs_version st') else None) down'"
    and "ready' \<longrightarrow> valid_utf8 (cs_content st') \<and> 0 \<le> cs_version st' \<and>
       utf8_chars (cs_content st') = text_at H' xs (cs_version st')"
    and "\<not> ready' \<longrightarrow> \<not> cs_has_inflight st'"
    and "H' = H \<or> (\<exists>op. H' = H @ [op])"
  shows "client_inv n H' xs st' up down' ready'"
proof -
  have "under_way H oid up down \<Longrightarrow> under_way H' oid up down'" for oid
    using assms(5,9) by (auto simp: under_way_def request_ok_def)
  moreover have "wf_client st' = wf_client st" using assms(2) by (rule keeps_wf)
  ultimately show ?thesis using assms by (auto simp: client_inv_def keeps_def)
qed

section \<open>The steps of a client\<close>

lemma type_step:
  assumes inv: "client_inv n H xs st up down True" and op: "key_op op" and room: "int n + 1 < c_int_max"
  shows "\<exists>rc oid st' sent. ts_client_state_queue_operation True st op = Some (rc, oid, st', sent) \<and>
    client_inv (Suc n) H xs st' (up @ sent) down True"
proof -
  let ?u = "queued_state st op"
  have num: "cs_next_op_number st < c_int_max" using inv room by (auto simp: client_inv_def)
  have eq: "ts_client_state_queue_operation True st op =
      Some (0, Some (po_op_id (new_pending st op)), fst (state_pump ?u), snd (state_pump ?u))"
    using num by (simp add: queue_operation_eq)
  have wf: "wf_client ?u" using inv num by (intro queued_state_wf) (auto simp: client_inv_def)
  show ?thesis
  proof (cases "cs_has_inflight st")
    case True
    then have "state_pump ?u = (?u, [])" by (intro pump_idle) simp
    with eq True inv wf op show ?thesis by (auto simp: client_inv_def)
  next
    case False
    with inv wf op have "client_inv (Suc n) H xs (fst (state_pump ?u)) (up @ snd (state_pump ?u)) down True"
      by (intro client_inv_pump) (auto simp: client_inv_def)
    with eq show ?thesis by blast
  qed
qed

text \<open>Handling the next message of the server, by what it can be.\<close>

lemma read_snapshot:
  assumes inv: "client_inv n H xs st up (m # down) False" and m: "snapshot_ok H xs m"
    and f: "follows H xs (Some (msg_version m)) down"
  shows "\<exists>st' sent. ts_client_state_handle_message st (arrive m) = Some (st', sent) \<and>
    client_inv n H xs st' (up @ sent) down True"
proof -
  from m obtain t where t: "msg_content m = Some t" "valid_utf8 t" "utf8_chars t = text_at H xs (msg_version m)"
    and v: "msg_type m = ''DOC_STATE''" "0 \<le> msg_version m" by (auto simp: snapshot_ok_def)
  define h where "h = (if msg_history_start_version m < 0 then 0 else msg_history_start_version m)"
  obtain u where u: "ts_client_state_set_document st (Some t) (msg_version m) h = state_pump u"
    "keeps st u" "\<not> cs_has_inflight u" "cs_content u = t" "cs_version u = msg_version m"
    using set_document_pump [of st t "msg_version m"] by metis
  have "ts_client_state_handle_message st (arrive m) = Some (state_pump u)"
    using t v u(1)
    by (cases "msg_history_start_version m < 0") (simp_all add: ts_client_state_handle_message_def h_def)
  moreover have "client_inv n H xs (fst (state_pump u)) (up @ snd (state_pump u)) down True"
  proof (rule client_inv_settle [OF inv u(2)])
    show "requests up = []" "acks down = []" using inv by (simp_all add: client_inv_def split: if_splits)
  qed (use u t v f in simp_all)
  ultimately show ?thesis by (cases "state_pump u") auto
qed

lemma read_neutral:
  assumes inv: "client_inv n H xs st up (m # down) ready"
    and m: "msg_type m = ''WELCOME'' \<or> msg_type m = ''SAVE_QUEUED''"
    and f: "follows H xs (if ready then Some (cs_version st) else None) down"
  shows "\<exists>st' sent. ts_client_state_handle_message st (arrive m) = Some (st', sent) \<and>
    client_inv n H xs st' (up @ sent) down ready"
proof -
  have "\<exists>st'. ts_client_state_handle_message st (arrive m) = Some (st', []) \<and> keeps st st' \<and>
    cs_has_inflight st' = cs_has_inflight st \<and> cs_inflight st' = cs_inflight st \<and>
    cs_content st' = cs_content st \<and> cs_version st' = cs_version st"
    using m
    by (elim disjE; cases "msg_client_id m = []") (simp_all add: ts_client_state_handle_message_def Let_def)
  then obtain st' where st': "ts_client_state_handle_message st (arrive m) = Some (st', [])" "keeps st st'"
    "cs_has_inflight st' = cs_has_inflight st" "cs_inflight st' = cs_inflight st"
    "cs_content st' = cs_content st" "cs_version st' = cs_version st" by blast
  moreover have "client_inv n H xs st' up down ready"
    using st' inv m f by (intro client_inv_keep [OF inv st'(2-4)]) (auto simp: client_inv_def)
  ultimately show ?thesis by auto
qed

lemma read_remote:
  assumes inv: "client_inv n H xs st up (m # down) True" and H: "list_all good_op H"
    and m: "update_ok H m (cs_version st)" "msg_type m = ''REMOTE_OP''"
    and f: "follows H xs (Some (cs_version st + 1)) down"
  shows "\<exists>st' sent. ts_client_state_handle_message st (arrive m) = Some (st', sent) \<and>
    client_inv n H xs st' (up @ sent) down True"
proof -
  from m(1) H have op: "good_op (msg_op (arrive m))" "msg_has_op (arrive m)"
    "msg_version (arrive m) = cs_version st + 1" "msg_op m = H ! nat (cs_version st)"
    "0 \<le> cs_version st" "nat (cs_version st) < length H"
    by (auto simp: update_ok_def list_all_length)
  from inv have c: "valid_utf8 (cs_content st)" "utf8_chars (cs_content st) = text_at H xs (cs_version st)"
    by (auto simp: client_inv_def)
  obtain st' where st': "ts_client_state_handle_message st (arrive m) = Some (st', [])"
    "valid_utf8 (cs_content st')"
    "utf8_chars (cs_content st') = apply_edit (edit_of (msg_op m)) (utf8_chars (cs_content st))"
    "cs_version st' = cs_version st + 1" "keeps st st'" "cs_has_inflight st' = cs_has_inflight st"
    "cs_inflight st' = cs_inflight st"
    using handle_remote_next [OF c(1) op(1,2,5) _ op(3)] m(2) by auto
  moreover have "client_inv n H xs st' up down True"
    using st' m(2) f op(5) c text_at_step [OF op(5,6), of xs] op(4)
    by (intro client_inv_keep [OF inv st'(5-7)]) auto
  ultimately show ?thesis by auto
qed

lemma read_ack:
  assumes inv: "client_inv n H xs st up (m # down) True" and H: "list_all good_op H"
    and m: "update_ok H m (cs_version st)" "msg_type m = ''ACK''"
    and f: "follows H xs (Some (cs_version st + 1)) down"
  shows "\<exists>st' sent. ts_client_state_handle_message st (arrive m) = Some (st', sent) \<and>
    client_inv n H xs st' (up @ sent) down True"
proof -
  from m(1) H have op: "good_op (msg_op (arrive m))" "msg_has_op (arrive m)" "0 \<le> msg_version (arrive m)"
    "msg_version (arrive m) = cs_version st + 1" "msg_op m = H ! nat (cs_version st)"
    "0 \<le> cs_version st" "nat (cs_version st) < length H"
    by (auto simp: update_ok_def list_all_length)
  from inv have c: "valid_utf8 (cs_content st)" "utf8_chars (cs_content st) = text_at H xs (cs_version st)"
    by (auto simp: client_inv_def)
  from inv m(2) have infl: "cs_has_inflight st" and one: "requests up = []" "acks down = []"
    "msg_op_id m = po_op_id (cs_inflight st)"
    by (auto simp: client_inv_def under_way_def split: if_splits)
  obtain u where u: "ts_client_state_handle_message st (arrive m) = Some (state_pump u)"
    "valid_utf8 (cs_content u)" "cs_version u = cs_version st + 1"
    "utf8_chars (cs_content u) = apply_edit (edit_of (msg_op m)) (utf8_chars (cs_content st))"
    "\<not> cs_has_inflight u" "keeps st u"
    using ack_pump [OF c(1) op(1-3) _ infl] m(2) one(3) op(4) by auto
  have "client_inv n H xs (fst (state_pump u)) (up @ snd (state_pump u)) down True"
  proof (rule client_inv_settle [OF inv u(6)])
    show "utf8_chars (cs_content u) = text_at H xs (cs_version u)"
      using u(3,4) c(2) op(5) text_at_step [OF op(6,7), of xs] by simp
  qed (use u f one op(6) in simp_all)
  with u(1) show ?thesis by (cases "state_pump u") auto
qed

lemma read_step:
  assumes inv: "client_inv n H xs st up (m # down) ready" and H: "list_all good_op H"
  shows "\<exists>st' sent. ts_client_state_handle_message st (arrive m) = Some (st', sent) \<and>
    client_inv n H xs st' (up @ sent) down (ready \<or> msg_type m = ''DOC_STATE'')"
proof -
  from inv have f: "follows H xs (if ready then Some (cs_version st) else None) (m # down)"
    by (simp add: client_inv_def)
  show ?thesis
  proof (cases ready)
    case True
    with f consider "msg_type m = ''SAVE_QUEUED''" "follows H xs (Some (cs_version st)) down"
      | "update_ok H m (cs_version st)" "follows H xs (Some (cs_version st + 1)) down" by auto
    then show ?thesis
    proof cases
      case 1
      with read_neutral [OF inv] True show ?thesis by simp
    next
      case 2
      then consider "msg_type m = ''ACK''" | "msg_type m = ''REMOTE_OP''" by (auto simp: update_ok_def)
      then show ?thesis
        using read_ack [OF _ H 2(1) _ 2(2)] read_remote [OF _ H 2(1) _ 2(2)] inv True by cases auto
    qed
  next
    case False
    with f consider "msg_type m = ''WELCOME''" "follows H xs None down"
      | "snapshot_ok H xs m" "follows H xs (Some (msg_version m)) down" by auto
    then show ?thesis
    proof cases
      case 1
      with read_neutral [OF inv] False show ?thesis by simp
    next
      case 2
      moreover from 2 have "msg_type m = ''DOC_STATE''" by (simp add: snapshot_ok_def)
      ultimately show ?thesis using read_snapshot [of n H xs st up m down] inv False by simp
    qed
  qed
qed

section \<open>What the server sends\<close>

lemma sent_to_simps [simp]:
  "sent_to i [] = []" "sent_to i (a @ b) = sent_to i a @ sent_to i b"
  "sent_to i (ToClient j m # es) = (if j = i then [m] else []) @ sent_to i es"
  "sent_to i (AutosaveSnapshot c v # es) = sent_to i es" "sent_to i (AutosaveSaveNow c v # es) = sent_to i es"
  "sent_to i (AutosaveLog l # es) = sent_to i es" "sent_to i (Printed l # es) = sent_to i es"
  by (simp_all add: sent_to_def)

lemma sent_to_print [simp]: "sent_to i (print_event l) = []"
  by (simp add: print_event_def split: option.split list.split)

lemma sent_to_log [simp]: "sent_to i (server_log e) = []"
  by (simp add: server_log_def)

lemma sent_to_clients:
  "sent_to i (map (\<lambda>c. ToClient (cn_fd c) m) cs) = map (\<lambda>_. m) (filter (\<lambda>c. cn_fd c = i) cs)"
  by (induction cs) simp_all

lemma filter_fd:
  assumes "distinct (map cn_fd cs)" and "c \<in> set cs"
  shows "filter (\<lambda>x. cn_fd x = cn_fd c) cs = [c]"
  using assms
proof (induction cs)
  case (Cons x xs)
  have "filter (\<lambda>y. cn_fd y = cn_fd x) xs = []" using Cons.prems(1) by (auto simp: filter_empty_conv image_iff)
  moreover have "c \<in> set xs \<Longrightarrow> cn_fd x \<noteq> cn_fd c" using Cons.prems(1) by auto
  ultimately show ?case using Cons by auto
qed simp

lemma sent_to_broadcast:
  assumes "distinct (map cn_fd (sv_clients server))" and "c \<in> set (sv_clients server)"
  shows "sent_to (cn_fd c) (broadcast_message server m (Some cid)) = (if cn_client_id c = cid then [] else [m])"
proof -
  have "filter (\<lambda>x. cn_fd x = cn_fd c) (filter (\<lambda>x. Some (cn_client_id x) \<noteq> Some cid) (sv_clients server)) =
      filter (\<lambda>x. Some (cn_client_id x) \<noteq> Some cid) [c]"
    unfolding filter_filter conj_commute [of "Some _ \<noteq> _"]
    by (simp only: flip: filter_filter) (simp only: filter_fd [OF assms])
  then show ?thesis by (simp add: broadcast_message_def sent_to_clients)
qed

lemma conn_of_Some: "conn_of server i = Some c \<Longrightarrow> c \<in> set (sv_clients server) \<and> cn_fd c = i"
  by (auto simp: conn_of_def find_Some_iff)

lemma conn_of_None: "conn_of server i = None \<longleftrightarrow> i \<notin> cn_fd ` set (sv_clients server)"
  by (auto simp: conn_of_def find_None_iff)

section \<open>The steps of the server\<close>

definition history_ops :: "TsDocument \<Rightarrow> TsOperation list" where
  "history_ops doc = map he_op (doc_history doc)"

text \<open>The document while its history is complete: it starts at version 0.\<close>

definition doc_inv :: "nat \<Rightarrow> string list \<Rightarrow> TsDocument \<Rightarrow> bool" where
  "doc_inv L xs doc \<longleftrightarrow> wf_document doc \<and> doc_history_start_version doc = 0 \<and>
     doc_history_limit doc = L \<and> replays xs doc"

lemma doc_inv_facts:
  assumes "doc_inv L xs doc"
  shows "doc_version doc = int (length (history_ops doc))" "list_all good_op (history_ops doc)"
    "text_at (history_ops doc) xs (doc_version doc) = utf8_chars (doc_text doc)" "valid_utf8 (doc_text doc)"
proof -
  from assms have wf: "wf_document doc" and z: "doc_history_start_version doc = 0" and r: "replays xs doc"
    by (auto simp: doc_inv_def)
  show v: "doc_version doc = int (length (history_ops doc))"
    using wf_documentD(4) [OF wf] z by (simp add: history_ops_def)
  show "list_all good_op (history_ops doc)" using wf_documentD(8) [OF wf] by (simp add: history_ops_def list_all_iff)
  show "text_at (history_ops doc) xs (doc_version doc) = utf8_chars (doc_text doc)"
    using r v by (simp add: text_at_def replays_def history_edits_def history_ops_def comp_def)
  show "valid_utf8 (doc_text doc)" by (rule wf_documentD(7) [OF wf])
qed

lemma accept_step:
  assumes inv: "doc_inv L xs doc" and op: "key_op op" and b: "0 \<le> b" "b \<le> doc_version doc"
    and room: "length (history_ops doc) < L" "int (length (history_ops doc)) < c_int_max"
  obtains t where
    "ts_document_process_operation doc cid oid b (Some op) =
      Some (accept_result doc cid oid b op t, accept_doc doc cid oid b op t)"
    and "doc_inv L xs (accept_doc doc cid oid b op t)"
    and "history_ops (accept_doc doc cid oid b op t) = history_ops doc @ [transformed_op doc b op]"
proof -
  from inv have wf: "wf_document doc" and z: "doc_history_start_version doc = 0" and L: "doc_history_limit doc = L"
    and rep: "replays xs doc" by (auto simp: doc_inv_def)
  have range: "base_in_range doc b" using b z by (simp add: base_in_range_def)
  have "op_kind op = TS_OP_INSERT \<Longrightarrow> ts_utf8_char_count (Some (op_ch op)) = 1"
    using op by (simp add: key_op_def good_op_def char_count_char)
  then have nr: "\<not> rejected (Some op)" using op by (auto simp: rejected_def key_op_def)
  have lt: "doc_version doc < c_int_max" using doc_inv_facts(1) [OF inv] room(2) by simp
  from op have good: "good_op op" by (simp add: key_op_def)
  from b z have "doc_history_start_version doc \<le> b" by simp
  from accept_Some [OF wf lt good this, of cid oid] obtain t where t:
    "process_accept doc cid oid b op = Some (accept_result doc cid oid b op t, accept_doc doc cid oid b op t)"
    "utf8_chars t = apply_edit (edit_of (transformed_op doc b op)) (utf8_chars (doc_text doc))"
    "wf_document (accept_doc doc cid oid b op t)" by metis
  have hist: "doc_history (accept_doc doc cid oid b op t) = doc_history doc @ [accept_entry doc cid oid b op]"
    using room(1) L by (simp add: accept_doc_history history_ops_def)
  have "doc_history_start_version (accept_doc doc cid oid b op t) = 0"
    using wf_documentD(4) [OF t(3)] wf_documentD(4) [OF wf] z hist by simp
  moreover have "replays xs (accept_doc doc cid oid b op t)"
    using rep t(2) hist by (simp add: replays_def history_edits_def accept_entry_def)
  ultimately have "doc_inv L xs (accept_doc doc cid oid b op t)" using t(3) L by (simp add: doc_inv_def)
  moreover have "history_ops (accept_doc doc cid oid b op t) = history_ops doc @ [transformed_op doc b op]"
    using hist by (simp add: history_ops_def accept_entry_def)
  ultimately show ?thesis using that t(1) process_accepted [OF nr range] by simp
qed

lemma owner_acknowledged:
  assumes inv: "client_inv n H xs st (m # up) down ready" and m: "msg_type m = ''OP''"
    and a: "msg_type a = ''ACK''" "msg_has_op a" "msg_op a = op" "msg_version a = int (length H) + 1"
      "msg_op_id a = msg_op_id m"
  shows "client_inv n (H @ [op]) xs st up (down @ [a]) ready"
proof -
  from inv m have infl: "cs_has_inflight st" and r: "requests up = []" "acks down = []"
    "msg_op_id m = po_op_id (cs_inflight st)"
    by (auto simp: client_inv_def under_way_def request_ok_def split: if_splits)
  from inv infl have ready by (auto simp: client_inv_def)
  have "under_way (H @ [op]) (po_op_id (cs_inflight st)) up (down @ [a])"
    using r a by (simp add: under_way_def)
  moreover have "follows (H @ [op]) xs (Some (cs_version st)) (down @ [a])"
    using inv a \<open>ready\<close> by (intro follows_update) (auto simp: client_inv_def)
  moreover have "text_at (H @ [op]) xs (cs_version st) = text_at H xs (cs_version st)"
    using client_inv_version [of n H xs st "m # up" down] inv \<open>ready\<close> by (intro text_at_snoc) auto
  ultimately show ?thesis using inv infl \<open>ready\<close> by (simp add: client_inv_def)
qed

lemma other_informed:
  assumes inv: "client_inv n H xs st up down ready"
    and a: "msg_type a = ''REMOTE_OP''" "msg_has_op a" "msg_op a = op" "msg_version a = int (length H) + 1"
  shows "client_inv n (H @ [op]) xs st up (down @ [a]) ready"
proof (rule client_inv_keep [OF inv keeps_simps(1) refl refl])
  show "acks (down @ [a]) = acks down" using a(1) by simp
  show "follows (H @ [op]) xs (if ready then Some (cs_version st) else None) (down @ [a])"
    using inv a by (intro follows_update) (auto simp: client_inv_def)
  show "ready \<longrightarrow> valid_utf8 (cs_content st) \<and> 0 \<le> cs_version st \<and>
      utf8_chars (cs_content st) = text_at (H @ [op]) xs (cs_version st)"
  proof
    assume ready
    with inv have "cs_version st \<le> int (length H)" using client_inv_version [of n H xs st up down] by simp
    then have "text_at (H @ [op]) xs (cs_version st) = text_at H xs (cs_version st)"
      by (intro text_at_snoc) simp
    with inv \<open>ready\<close> show "valid_utf8 (cs_content st) \<and> 0 \<le> cs_version st \<and>
      utf8_chars (cs_content st) = text_at (H @ [op]) xs (cs_version st)" by (simp add: client_inv_def)
  qed
  show "\<not> ready \<longrightarrow> \<not> cs_has_inflight st" using inv by (simp add: client_inv_def)
qed simp

lemma saved_informed:
  assumes inv: "client_inv n H xs st (m # up) down ready" and m: "msg_type m = ''SAVE''"
    and a: "msg_type a = ''SAVE_QUEUED''"
  shows "client_inv n H xs st up (down @ [a]) ready"
  using inv m a follows_saved [of H xs _ down a] by (auto simp: client_inv_def under_way_def)

lemma save_queued:
  assumes "client_inv n H xs st up down ready" and "msg_type m = ''SAVE''"
  shows "client_inv n H xs st (up @ [m]) down ready"
  using assms by (auto simp: client_inv_def under_way_def)

section \<open>The invariant of the system\<close>

definition clients_inv :: "nat \<Rightarrow> string list \<Rightarrow> system \<Rightarrow> bool" where
  "clients_inv n xs s \<longleftrightarrow> (\<forall>c \<in> set (sv_clients (sys_server s)).
     client_inv n (history_ops (sv_document (sys_server s))) xs (sys_client s (cn_fd c))
       (sys_up s (cn_fd c)) (sys_down s (cn_fd c)) (sys_ready s (cn_fd c)))"

definition server_inv :: "nat \<Rightarrow> nat \<Rightarrow> string list \<Rightarrow> TsServer \<Rightarrow> bool" where
  "server_inv n L xs server \<longleftrightarrow>
     doc_inv L xs (sv_document server) \<and> length (history_ops (sv_document server)) \<le> n \<and>
     distinct (client_ids server) \<and> distinct (map cn_fd (sv_clients server)) \<and>
     0 \<le> sv_next_client_number server \<and> id_room server \<le> int n + 1"

text \<open>\<open>n\<close> counts the events so far; it bounds every counter of the program.\<close>

definition sys_inv :: "nat \<Rightarrow> nat \<Rightarrow> string list \<Rightarrow> system \<Rightarrow> bool" where
  "sys_inv n L xs s \<longleftrightarrow> server_inv n L xs (sys_server s) \<and> clients_inv n xs s"

definition ok_event :: "sys_event \<Rightarrow> bool" where
  "ok_event e = (case e of TypeKey i op \<Rightarrow> key_op op | _ \<Rightarrow> True)"

lemma clients_inv_mono: "clients_inv n xs s \<Longrightarrow> clients_inv (Suc n) xs s"
  by (auto simp: clients_inv_def intro: client_inv_mono)

lemma sys_inv_mono: "sys_inv n L xs s \<Longrightarrow> sys_inv (Suc n) L xs s"
  by (auto simp: sys_inv_def server_inv_def clients_inv_mono)

text \<open>A step that touches only the connection \<open>i\<close>, and neither server nor history.\<close>

lemma clients_inv_one:
  assumes "clients_inv n xs s" and "sys_server s' = sys_server s"
    and "\<And>j. j \<noteq> i \<Longrightarrow> sys_client s' j = sys_client s j \<and> sys_up s' j = sys_up s j \<and>
      sys_down s' j = sys_down s j \<and> sys_ready s' j = sys_ready s j"
    and "client_inv (Suc n) (history_ops (sv_document (sys_server s))) xs (sys_client s' i)
       (sys_up s' i) (sys_down s' i) (sys_ready s' i)"
  shows "clients_inv (Suc n) xs s'"
  unfolding clients_inv_def
proof
  fix c assume c: "c \<in> set (sv_clients (sys_server s'))"
  show "client_inv (Suc n) (history_ops (sv_document (sys_server s'))) xs (sys_client s' (cn_fd c))
       (sys_up s' (cn_fd c)) (sys_down s' (cn_fd c)) (sys_ready s' (cn_fd c))"
  proof (cases "cn_fd c = i")
    case True
    with assms(2,4) show ?thesis by simp
  next
    case False
    with assms(1-3) c show ?thesis by (simp add: clients_inv_def client_inv_mono)
  qed
qed

lemma type_inv:
  assumes inv: "sys_inv n L xs s" and op: "key_op op" and room: "int n + 2 < c_int_max"
  shows "\<exists>s'. sys_type i op s = Some s' \<and> sys_inv (Suc n) L xs s'"
proof (cases "conn_of (sys_server s) i = None \<or> \<not> sys_ready s i")
  case True
  with inv show ?thesis by (simp add: sys_type_def sys_inv_mono)
next
  case False
  then obtain c where "conn_of (sys_server s) i = Some c" and ready: "sys_ready s i" by auto
  from conn_of_Some [OF this(1)] have c: "c \<in> set (sv_clients (sys_server s))" "cn_fd c = i" by simp_all
  from inv c ready have "client_inv n (history_ops (sv_document (sys_server s))) xs (sys_client s i)
      (sys_up s i) (sys_down s i) True" by (auto simp: sys_inv_def clients_inv_def)
  from type_step [OF this op] room obtain rc oid st' sent where
    q: "ts_client_state_queue_operation True (sys_client s i) op = Some (rc, oid, st', sent)"
    and st': "client_inv (Suc n) (history_ops (sv_document (sys_server s))) xs st' (sys_up s i @ sent) (sys_down s i) True"
    by auto
  let ?s = "s\<lparr>sys_client := (sys_client s)(i := st'), sys_up := (sys_up s)(i := sys_up s i @ sent)\<rparr>"
  have "clients_inv (Suc n) xs ?s"
    using inv st' ready by (intro clients_inv_one [of n xs s ?s i]) (auto simp: sys_inv_def)
  moreover have "sys_type i op s = Some ?s" using False q by (auto simp: sys_type_def)
  ultimately show ?thesis using inv by (auto simp: sys_inv_def server_inv_def)
qed

lemma save_inv:
  assumes inv: "sys_inv n L xs s"
  shows "\<exists>s'. sys_save i s = Some s' \<and> sys_inv (Suc n) L xs s'"
proof (cases "conn_of (sys_server s) i")
  case None
  with inv show ?thesis by (simp add: sys_save_def sys_inv_mono)
next
  case (Some c)
  let ?s = "s\<lparr>sys_up := (sys_up s)(i := sys_up s i @ [save_message])\<rparr>"
  have "client_inv (Suc n) (history_ops (sv_document (sys_server s))) xs (sys_client s i)
      (sys_up s i @ [save_message]) (sys_down s i) (sys_ready s i)"
    using inv conn_of_Some [OF Some]
    by (intro save_queued client_inv_mono) (auto simp: sys_inv_def clients_inv_def save_message_def snprintf_buf_def ts_sizes)
  with inv have "clients_inv (Suc n) xs ?s" by (intro clients_inv_one [of n xs s ?s i]) (auto simp: sys_inv_def)
  with inv Some show ?thesis by (auto simp: sys_save_def sys_inv_def server_inv_def)
qed

lemma client_reads_inv:
  assumes inv: "sys_inv n L xs s"
  shows "\<exists>s'. sys_client_reads i s = Some s' \<and> sys_inv (Suc n) L xs s'"
proof (cases "sys_down s i = [] \<or> conn_of (sys_server s) i = None")
  case True
  with inv show ?thesis by (auto simp: sys_client_reads_def sys_inv_mono split: list.split option.split)
next
  case False
  then obtain m rest c where m: "sys_down s i = m # rest" and c: "conn_of (sys_server s) i = Some c"
    by (cases "sys_down s i") auto
  let ?H = "history_ops (sv_document (sys_server s))"
  have "client_inv n ?H xs (sys_client s i) (sys_up s i) (m # rest) (sys_ready s i)"
    using inv conn_of_Some [OF c] m by (auto simp: sys_inv_def clients_inv_def)
  moreover have "list_all good_op ?H"
    using inv doc_inv_facts(2) by (auto simp: sys_inv_def server_inv_def)
  ultimately obtain st' sent where
    h: "ts_client_state_handle_message (sys_client s i) (arrive m) = Some (st', sent)"
    and st': "client_inv n ?H xs st' (sys_up s i @ sent) rest (sys_ready s i \<or> msg_type m = ''DOC_STATE'')"
    using read_step by blast
  let ?s = "s\<lparr>sys_client := (sys_client s)(i := st'), sys_up := (sys_up s)(i := sys_up s i @ sent),
    sys_down := (sys_down s)(i := rest), sys_ready := (sys_ready s)(i := sys_ready s i \<or> msg_type m = ''DOC_STATE'')\<rparr>"
  have "clients_inv (Suc n) xs ?s"
    using inv st' by (intro clients_inv_one [of n xs s ?s i]) (auto simp: sys_inv_def intro: client_inv_mono)
  moreover have "sys_client_reads i s = Some ?s" using m c h by (simp add: sys_client_reads_def)
  ultimately show ?thesis using inv by (auto simp: sys_inv_def server_inv_def)
qed

lemma server_reads_save:
  assumes inv: "sys_inv n L xs s" and m: "sys_up s i = m # rest" "msg_type m = ''SAVE''"
    and c: "conn_of (sys_server s) i = Some c"
  shows "\<exists>s'. sys_server_reads i s = Some s' \<and> sys_inv (Suc n) L xs s'"
proof -
  define a where "a = ts_message_init\<lparr>msg_type := snprintf_buf TS_MAX_TYPE ''SAVE_QUEUED'',
    msg_version := msg_version (ts_document_snapshot (sv_document (sys_server s)))\<rparr>"
  from conn_of_Some [OF c] have c': "c \<in> set (sv_clients (sys_server s))" "cn_fd c = i" by auto
  obtain effects where e: "dispatch_message (sys_server s) c (arrive m) = Some (effects, sys_server s)"
    and out: "\<And>j. sent_to j effects = (if j = i then [a] else [])"
    using m(2) c'(2) by (simp add: dispatch_message_def Let_def a_def)
  let ?s = "s\<lparr>sys_up := (sys_up s)(i := rest), sys_down := deliver effects (sys_down s)\<rparr>"
  have "client_inv n (history_ops (sv_document (sys_server s))) xs (sys_client s i) (m # rest) (sys_down s i) (sys_ready s i)"
    using inv c' m by (auto simp: sys_inv_def clients_inv_def)
  from saved_informed [OF this m(2), of a] have
    "client_inv n (history_ops (sv_document (sys_server s))) xs (sys_client s i) rest (sys_down s i @ [a]) (sys_ready s i)"
    by (simp add: a_def snprintf_buf_def ts_sizes)
  then have "clients_inv (Suc n) xs ?s"
    using inv out
    by (intro clients_inv_one [of n xs s ?s i]) (auto simp: sys_inv_def deliver_def intro: client_inv_mono)
  moreover have "sys_server_reads i s = Some ?s" using m c e by (simp add: sys_server_reads_def)
  ultimately show ?thesis using inv by (auto simp: sys_inv_def server_inv_def)
qed

lemma server_reads_op:
  assumes inv: "sys_inv n L xs s" and m: "sys_up s i = m # rest" "msg_type m = ''OP''"
    and c: "conn_of (sys_server s) i = Some c" and room: "n < L" "int n + 2 < c_int_max"
  shows "\<exists>s'. sys_server_reads i s = Some s' \<and> sys_inv (Suc n) L xs s'"
proof -
  let ?srv = "sys_server s"
  let ?doc = "sv_document ?srv"
  let ?H = "history_ops ?doc"
  from conn_of_Some [OF c] have c': "c \<in> set (sv_clients ?srv)" "cn_fd c = i" by auto
  from inv have doc: "doc_inv L xs ?doc" "length ?H \<le> n" and ids: "distinct (client_ids ?srv)"
    and fds: "distinct (map cn_fd (sv_clients ?srv))" by (auto simp: sys_inv_def server_inv_def)
  have own: "client_inv n ?H xs (sys_client s i) (m # rest) (sys_down s i) (sys_ready s i)"
    using inv c' m by (auto simp: sys_inv_def clients_inv_def)
  then have "request_ok ?H (msg_op_id m) m" using m(2)
    by (auto simp: client_inv_def under_way_def request_ok_def split: if_splits)
  then have req: "msg_has_op m" "key_op (msg_op m)" "0 \<le> msg_base_version m" "msg_base_version m \<le> doc_version ?doc"
    by (simp_all add: request_ok_def doc_inv_facts(1) [OF doc(1)])
  have "length ?H < L" "int (length ?H) < c_int_max" using doc(2) room by linarith+
  from accept_step [OF doc(1) req(2-4) this, of "cn_client_id c" "msg_op_id m"] obtain t where
    p: "ts_document_process_operation ?doc (cn_client_id c) (msg_op_id m) (msg_base_version m) (Some (msg_op m)) =
      Some (accept_result ?doc (cn_client_id c) (msg_op_id m) (msg_base_version m) (msg_op m) t,
        accept_doc ?doc (cn_client_id c) (msg_op_id m) (msg_base_version m) (msg_op m) t)"
    and doc': "doc_inv L xs (accept_doc ?doc (cn_client_id c) (msg_op_id m) (msg_base_version m) (msg_op m) t)"
    and hist: "history_ops (accept_doc ?doc (cn_client_id c) (msg_op_id m) (msg_base_version m) (msg_op m) t) =
      ?H @ [transformed_op ?doc (msg_base_version m) (msg_op m)]" by blast
  define r where "r = accept_result ?doc (cn_client_id c) (msg_op_id m) (msg_base_version m) (msg_op m) t"
  define d where "d = accept_doc ?doc (cn_client_id c) (msg_op_id m) (msg_base_version m) (msg_op m) t"
  define op where "op = transformed_op ?doc (msg_base_version m) (msg_op m)"
  let ?srv' = "?srv\<lparr>sv_document := d\<rparr>"
  let ?eff = "AutosaveSnapshot t (res_snapshot_version r) # server_log (res_log_json r) @ [ToClient i (res_ack r)] @
    broadcast_message ?srv' (res_remote r) (Some (cn_client_id c))"
  have len: "length (msg_op_id m) < TS_MAX_OP_ID"
    using own m(2) by (auto simp: client_inv_def under_way_def request_ok_def split: if_splits)
  have res: "res_status r = TS_PROCESS_OK" "res_has_ack r" "res_has_remote r" "res_snapshot_content r = Some t"
    by (simp_all add: r_def accept_result_def)
  have ack: "msg_type (res_ack r) = ''ACK''" "msg_has_op (res_ack r)" "msg_op (res_ack r) = op"
    "msg_version (res_ack r) = int (length ?H) + 1" "msg_op_id (res_ack r) = msg_op_id m"
    using len by (simp_all add: r_def op_def accept_result_def make_ack_def doc_inv_facts(1) [OF doc(1)],
        simp_all add: snprintf_buf_def ts_sizes)
  have remote: "msg_type (res_remote r) = ''REMOTE_OP''" "msg_has_op (res_remote r)" "msg_op (res_remote r) = op"
    "msg_version (res_remote r) = int (length ?H) + 1"
    by (simp_all add: r_def op_def accept_result_def make_remote_def doc_inv_facts(1) [OF doc(1)],
        simp_all add: snprintf_buf_def ts_sizes)
  have disp: "dispatch_message ?srv c (arrive m) = Some (?eff, ?srv')"
    using m(2) req(1) p res c'(2) by (simp add: dispatch_message_def Let_def r_def [symmetric] d_def [symmetric])
  let ?s = "s\<lparr>sys_server := ?srv', sys_up := (sys_up s)(i := rest), sys_down := deliver ?eff (sys_down s)\<rparr>"
  have ids': "cn_client_id c2 = cn_client_id c \<longleftrightarrow> cn_fd c2 = i" if "c2 \<in> set (sv_clients ?srv)" for c2
    using that c' ids fds by (auto simp: client_ids_def distinct_map inj_on_def)
  have H': "history_ops d = ?H @ [op]" using hist by (simp add: d_def op_def)
  have "clients_inv n xs ?s"
    unfolding clients_inv_def
  proof
    fix c2 assume "c2 \<in> set (sv_clients (sys_server ?s))"
    then have c2: "c2 \<in> set (sv_clients ?srv)" by simp
    have out: "deliver ?eff (sys_down s) (cn_fd c2) = sys_down s (cn_fd c2) @ [if cn_fd c2 = i then res_ack r else res_remote r]"
      using sent_to_broadcast [of ?srv' c2 "res_remote r" "cn_client_id c"] fds c2 ids' [OF c2]
      by (auto simp: deliver_def)
    show "client_inv n (history_ops (sv_document (sys_server ?s))) xs (sys_client ?s (cn_fd c2))
       (sys_up ?s (cn_fd c2)) (sys_down ?s (cn_fd c2)) (sys_ready ?s (cn_fd c2))"
    proof (cases "cn_fd c2 = i")
      case True
      with owner_acknowledged [OF own m(2) ack] out H' show ?thesis by simp
    next
      case False
      have "client_inv n ?H xs (sys_client s (cn_fd c2)) (sys_up s (cn_fd c2)) (sys_down s (cn_fd c2)) (sys_ready s (cn_fd c2))"
        using inv c2 by (auto simp: sys_inv_def clients_inv_def)
      from other_informed [OF this remote] False out H' show ?thesis by simp
    qed
  qed
  moreover have "server_inv (Suc n) L xs ?srv'"
    using inv doc' H' doc(2) by (auto simp: sys_inv_def server_inv_def client_ids_def id_room_def taken_from_def d_def)
  moreover have "sys_server_reads i s = Some ?s"
    using m(1) c disp by (simp add: sys_server_reads_def)
  ultimately show ?thesis by (auto simp: sys_inv_def intro: clients_inv_mono)
qed

lemma server_reads_inv:
  assumes inv: "sys_inv n L xs s" and room: "n < L" "int n + 2 < c_int_max"
  shows "\<exists>s'. sys_server_reads i s = Some s' \<and> sys_inv (Suc n) L xs s'"
proof (cases "sys_up s i = [] \<or> conn_of (sys_server s) i = None")
  case True
  with inv show ?thesis by (auto simp: sys_server_reads_def sys_inv_mono split: list.split option.split)
next
  case False
  then obtain m rest c where m: "sys_up s i = m # rest" and c: "conn_of (sys_server s) i = Some c"
    by (cases "sys_up s i") auto
  have "client_inv n (history_ops (sv_document (sys_server s))) xs (sys_client s i) (m # rest) (sys_down s i) (sys_ready s i)"
    using inv conn_of_Some [OF c] m by (auto simp: sys_inv_def clients_inv_def)
  then have "msg_type m = ''OP'' \<or> msg_type m = ''SAVE''" by (simp add: client_inv_def)
  with server_reads_op [OF inv m _ c room] server_reads_save [OF inv m _ c] show ?thesis by blast
qed

lemma leave_inv:
  assumes inv: "sys_inv n L xs s"
  shows "\<exists>s'. sys_leave i s = Some s' \<and> sys_inv (Suc n) L xs s'"
proof (cases "conn_of (sys_server s) i")
  case None
  with inv show ?thesis by (simp add: sys_leave_def sys_inv_mono)
next
  case (Some c)
  let ?srv = "sys_server s" and ?srv' = "unregister_client (sys_server s) (cn_client_id c)"
  let ?eff = "server_log (leave_log_entry c)"
  let ?s = "s\<lparr>sys_server := ?srv', sys_up := (sys_up s)(i := []),
    sys_down := (deliver ?eff (sys_down s))(i := []), sys_ready := (sys_ready s)(i := False)\<rparr>"
  from conn_of_Some [OF Some] have c: "c \<in> set (sv_clients ?srv)" "cn_fd c = i" by auto
  from inv have ids: "distinct (client_ids ?srv)" and fds: "distinct (map cn_fd (sv_clients ?srv))"
    by (auto simp: sys_inv_def server_inv_def)
  have cs: "sv_clients ?srv' = filter (\<lambda>x. cn_client_id x \<noteq> cn_client_id c) (sv_clients ?srv)"
    using ids by (simp add: unregister_client_def unlink_filter client_ids_def)
  have other: "cn_fd c2 \<noteq> i" if "c2 \<in> set (sv_clients ?srv')" for c2
    using that c fds by (auto simp: cs distinct_map inj_on_def)
  have doc: "sv_document ?srv' = sv_document ?srv" "sv_next_client_number ?srv' = sv_next_client_number ?srv"
    by (simp_all add: unregister_client_def)
  have "clients_inv n xs ?s"
    unfolding clients_inv_def
  proof
    fix c2 assume "c2 \<in> set (sv_clients (sys_server ?s))"
    then have c2: "c2 \<in> set (sv_clients ?srv')" "c2 \<in> set (sv_clients ?srv)" by (simp_all add: cs)
    then show "client_inv n (history_ops (sv_document (sys_server ?s))) xs (sys_client ?s (cn_fd c2))
       (sys_up ?s (cn_fd c2)) (sys_down ?s (cn_fd c2)) (sys_ready ?s (cn_fd c2))"
      using inv other [OF c2(1)] by (simp add: sys_inv_def clients_inv_def deliver_def doc)
  qed
  moreover have "server_inv n L xs ?srv'"
    using inv id_room_unregister [of ?srv "cn_client_id c"]
    by (auto simp: sys_inv_def server_inv_def doc cs client_ids_def distinct_map_filter)
  moreover have "sys_leave i s = Some ?s"
    using Some by (simp add: sys_leave_def client_thread_leave_def)
  ultimately show ?thesis using sys_inv_mono [of n L xs ?s] by (auto simp: sys_inv_def)
qed

lemma join_client_inv:
  assumes doc: "doc_inv L xs doc" and w: "msg_type w = ''WELCOME''"
  shows "client_inv n (history_ops doc) xs (ts_client_state_init cid True) [] [w, ts_document_snapshot doc] False"
proof -
  have "snapshot_ok (history_ops doc) xs (ts_document_snapshot doc)"
    using doc_inv_facts [OF doc]
    by (simp add: snapshot_ok_def ts_document_snapshot_def ts_strdup_def, simp add: snprintf_buf_def ts_sizes)
  moreover have "msg_version (ts_document_snapshot doc) = int (length (history_ops doc))"
    by (simp add: ts_document_snapshot_def doc_inv_facts(1) [OF doc])
  moreover have "msg_type (ts_document_snapshot doc) = ''DOC_STATE''"
    by (simp add: ts_document_snapshot_def snprintf_buf_def ts_sizes)
  moreover have "cs_next_op_number (ts_client_state_init cid True) = 1"
    "cs_queue (ts_client_state_init cid True) = []" "\<not> cs_has_inflight (ts_client_state_init cid True)"
    by (simp_all add: ts_client_state_init_def zero_client_state_def)
  ultimately show ?thesis using w wf_client_init [of cid] by (simp add: client_inv_def)
qed

lemma join_inv:
  assumes inv: "sys_inv n L xs s" and room: "int n + 2 < c_int_max"
  shows "\<exists>s'. sys_join i cid address s = Some s' \<and> sys_inv (Suc n) L xs s'"
proof (cases "conn_of (sys_server s) i = None")
  case False
  with inv show ?thesis by (simp add: sys_join_def sys_inv_mono)
next
  case True
  let ?srv = "sys_server s" and ?conn = "\<lparr>cn_fd = i, cn_client_id = [], cn_address = address\<rparr>"
  let ?m = "arrive (join_message cid)"
  from inv have doc: "doc_inv L xs (sv_document ?srv)" and ids: "distinct (client_ids ?srv)"
    and fds: "distinct (map cn_fd (sv_clients ?srv))" and num: "0 \<le> sv_next_client_number ?srv"
    and idr: "id_room ?srv \<le> int n + 1" by (auto simp: sys_inv_def server_inv_def)
  have m: "msg_type ?m = ''JOIN''" "length (msg_client_id ?m) < TS_MAX_CLIENT_ID"
    by (simp_all add: join_message_def snprintf_buf_def ts_sizes)
  from idr room have "id_room ?srv < c_int_max" by simp
  from hello_join [OF num this m, of ?conn] obtain out k where
    h: "client_thread_hello ?srv ?conn (Some ?m) = Some (True, ?conn\<lparr>cn_client_id := out\<rparr>,
        [ToClient i (welcome_message out), ToClient i (ts_document_snapshot (sv_document ?srv))] @
        server_log (join_log_entry (?conn\<lparr>cn_client_id := out\<rparr>)),
        register_client (?srv\<lparr>sv_next_client_number := k\<rparr>) (?conn\<lparr>cn_client_id := out\<rparr>))"
    and out: "out \<notin> set (client_ids ?srv)" "0 \<le> k"
      "id_room (register_client (?srv\<lparr>sv_next_client_number := k\<rparr>) (?conn\<lparr>cn_client_id := out\<rparr>)) \<le> id_room ?srv + 1"
    by (metis TsClientConnection.simps(1))
  define srv' where "srv' = register_client (?srv\<lparr>sv_next_client_number := k\<rparr>) (?conn\<lparr>cn_client_id := out\<rparr>)"
  define eff where "eff = [ToClient i (welcome_message out), ToClient i (ts_document_snapshot (sv_document ?srv))] @
        server_log (join_log_entry (?conn\<lparr>cn_client_id := out\<rparr>))"
  let ?s = "s\<lparr>sys_server := srv', sys_client := (sys_client s)(i := ts_client_state_init (Some cid) True),
    sys_up := (sys_up s)(i := []), sys_down := deliver eff ((sys_down s)(i := [])), sys_ready := (sys_ready s)(i := False)\<rparr>"
  have srv': "sv_document srv' = sv_document ?srv" "sv_clients srv' = ?conn\<lparr>cn_client_id := out\<rparr> # sv_clients ?srv"
    "sv_next_client_number srv' = k" by (simp_all add: srv'_def register_client_def)
  have new: "i \<notin> cn_fd ` set (sv_clients ?srv)" using True by (simp add: conn_of_None)
  have sent: "sent_to j eff = (if j = i then [welcome_message out, ts_document_snapshot (sv_document ?srv)] else [])" for j
    by (simp add: eff_def)
  have "msg_type (welcome_message out) = ''WELCOME''" by (simp add: welcome_message_def snprintf_buf_def ts_sizes)
  note fresh = join_client_inv [OF doc this, of n "Some cid"]
  have "clients_inv n xs ?s"
    unfolding clients_inv_def
  proof
    fix c2 assume "c2 \<in> set (sv_clients (sys_server ?s))"
    then consider "cn_fd c2 = i" | "c2 \<in> set (sv_clients ?srv)" "cn_fd c2 \<noteq> i" using new by (auto simp: srv' image_iff)
    then show "client_inv n (history_ops (sv_document (sys_server ?s))) xs (sys_client ?s (cn_fd c2))
       (sys_up ?s (cn_fd c2)) (sys_down ?s (cn_fd c2)) (sys_ready ?s (cn_fd c2))"
    proof cases
      case 1
      with fresh show ?thesis by (simp add: deliver_def sent srv')
    next
      case 2
      with inv show ?thesis by (simp add: sys_inv_def clients_inv_def deliver_def sent srv')
    qed
  qed
  moreover have "server_inv (Suc n) L xs srv'"
    using inv out idr new by (auto simp: sys_inv_def server_inv_def srv' client_ids_def) (simp_all add: srv'_def)
  moreover have "sys_join i cid address s = Some ?s"
    using True h by (simp add: sys_join_def srv'_def eff_def)
  ultimately show ?thesis by (auto simp: sys_inv_def intro: clients_inv_mono)
qed

text \<open>Every step is defined and keeps the invariant, as long as the history is complete and the counters
  have room.\<close>

lemma sys_step_inv:
  assumes "sys_inv n L xs s" and "ok_event e" and "n < L" and "int n + 2 < c_int_max"
  shows "\<exists>s'. sys_step e s = Some s' \<and> sys_inv (Suc n) L xs s'"
proof (cases e)
  case (Join i cid a)
  with join_inv [OF assms(1,4)] show ?thesis by (simp add: sys_step_def)
next
  case (Leave i)
  with leave_inv [OF assms(1)] show ?thesis by (simp add: sys_step_def)
next
  case (TypeKey i op)
  with assms(2) type_inv [OF assms(1) _ assms(4)] show ?thesis by (simp add: sys_step_def ok_event_def)
next
  case (SaveKey i)
  with save_inv [OF assms(1)] show ?thesis by (simp add: sys_step_def)
next
  case (ServerReads i)
  with server_reads_inv [OF assms(1,3,4)] show ?thesis by (simp add: sys_step_def)
next
  case (ClientReads i)
  with client_reads_inv [OF assms(1)] show ?thesis by (simp add: sys_step_def)
qed

end
