(* ===== verification/System_Run.thy ===== *)
theory System_Run
  imports System_Inv
begin

text \<open>
  A concrete run: a client joins the server that was started on an empty document, gets the
  document, types one character and receives its acknowledgement. The state after each step is
  computed from the definitions; the run is where the properties of theory \<open>System_Correct\<close>
  are applied.
\<close>

section \<open>Joining\<close>


definition example_start :: TsServer where
  "example_start = snd (server_main_init [''server''] (Some []))"

lemma example_start_simps: "sv_clients example_start = []" "sv_next_client_number example_start = 1"
  "sv_document example_start = ts_document_init (Some []) 1000"
  by (simp_all add: example_start_def server_main_init_def Let_def parse_int_arg_def)

lemma deliver_simps: "deliver es down i = down i @ sent_to i es"
  by (simp add: deliver_def)

definition conn4 :: TsClientConnection where
  "conn4 = \<lparr>cn_fd = 4, cn_client_id = ''al'', cn_address = ''a''\<rparr>"

lemma after_join: 
  "\<exists>s. sys_step (Join 4 ''al'' ''a'') (sys_init example_start) = Some s \<and>
    sys_server s = example_start\<lparr>sv_clients := [conn4]\<rparr> \<and> sys_client s 4 = ts_client_state_init (Some ''al'') True \<and>
    sys_up s 4 = [] \<and> sys_down s 4 = [welcome_message ''al'', ts_document_snapshot (ts_document_init (Some []) 1000)] \<and>
    \<not> sys_ready s 4"
  by (simp add: sys_step_def sys_join_def sys_init_def conn_of_def example_start_simps client_thread_hello_def
     choose_client_id_def join_message_def register_client_def snprintf_buf_def ts_sizes Let_def client_ids_def
     deliver_simps welcome_message_def conn4_def)


definition key_x :: TsOperation where
  "key_x = ts_operation_init TS_OP_INSERT 0 (Some ''x'')"
lemma key_x_simps [simp]: "op_kind key_x = TS_OP_INSERT" "op_pos key_x = 0" "op_ch key_x = ''x''"
  by (simp_all add: key_x_def ts_operation_init_eq)

lemma client_reads_Some:
  assumes "sys_down s i = m # rest" and "conn_of (sys_server s) i = Some c"
    and "ts_client_state_handle_message (sys_client s i) (arrive m) = Some (st, sent)"
  shows "\<exists>s'. sys_step (ClientReads i) s = Some s' \<and> sys_server s' = sys_server s \<and> sys_client s' i = st \<and>
    sys_up s' i = sys_up s i @ sent \<and> sys_down s' i = rest \<and> sys_ready s' i = (sys_ready s i \<or> msg_type m = ''DOC_STATE'')"
  using assms by (simp add: sys_step_def sys_client_reads_def)

lemma conn4_of [simp]: "conn_of (srv\<lparr>sv_clients := [conn4]\<rparr>) 4 = Some conn4"
  "conn_of (srv\<lparr>sv_clients := [conn4], sv_document := d\<rparr>) 4 = Some conn4"
  by (simp_all add: conn_of_def conn4_def)

definition joining :: "sys_event list" where
  "joining = [Join 4 ''al'' ''a'', ClientReads 4, ClientReads 4]"

definition typing_x :: "sys_event list" where
  "typing_x = [TypeKey 4 key_x, ServerReads 4, ClientReads 4]"

definition conn4_state :: TsClientState where
  "conn4_state = \<lparr>cs_client_id = ''al'', cs_content = [], cs_version = 0, cs_history_start_version = 0,
   cs_queue = [], cs_queue_cap = 0, cs_has_inflight = False, cs_inflight = zero_pending, cs_next_op_number = 1, 
   cs_status = snprintf_buf TS_MAX_STATUS (''synced at version '' @ show_int 0), cs_send_fn = True\<rparr>"

lemma hello: "\<exists>s. run_ops sys_step joining (sys_init example_start) = Some s \<and>
    sys_server s = example_start\<lparr>sv_clients := [conn4]\<rparr> \<and> sys_client s 4 = conn4_state \<and>
    sys_up s 4 = [] \<and> sys_down s 4 = [] \<and> sys_ready s 4"
proof -
  let ?doc = "ts_document_snapshot (ts_document_init (Some []) 1000)"
  obtain s1 where s1: "sys_step (Join 4 ''al'' ''a'') (sys_init example_start) = Some s1"
    "sys_server s1 = example_start\<lparr>sv_clients := [conn4]\<rparr>" "sys_client s1 4 = ts_client_state_init (Some ''al'') True"
    "sys_up s1 4 = []" "sys_down s1 4 = [welcome_message ''al'', ?doc]" "\<not> sys_ready s1 4" using after_join by blast
  let ?st = "set_status ''connected as al'' (ts_client_state_init (Some ''al'') True)"
  have "ts_client_state_handle_message (sys_client s1 4) (arrive (welcome_message ''al'')) = Some (?st, [])"
    unfolding s1(3) by (simp add: ts_client_state_handle_message_def welcome_message_def snprintf_buf_def ts_sizes Let_def
      ts_client_state_init_def zero_client_state_def set_status_def)
  from client_reads_Some [OF s1(5) _ this] s1 obtain s2 where s2: "sys_step (ClientReads 4) s1 = Some s2"
    "sys_server s2 = sys_server s1" "sys_client s2 4 = ?st" "sys_up s2 4 = []" "sys_down s2 4 = [?doc]" by auto
  have "ts_client_state_handle_message (sys_client s2 4) (arrive ?doc) = Some (conn4_state, [])"
    unfolding s2(3) by (simp add: ts_client_state_handle_message_def ts_document_snapshot_def snprintf_buf_def ts_sizes Let_def
      ts_client_state_init_def zero_client_state_def set_status_def ts_client_state_set_document_def pump_idle
      ts_document_init_def ts_strdup_def conn4_state_def)
  from client_reads_Some [OF s2(5) _ this] s2 s1(2) obtain s3 where s3: "sys_step (ClientReads 4) s2 = Some s3"
    "sys_server s3 = sys_server s2" "sys_client s3 4 = conn4_state" "sys_up s3 4 = []" "sys_down s3 4 = []" "sys_ready s3 4"
    by (auto simp: ts_document_snapshot_def snprintf_buf_def ts_sizes)
  with s1 s2 show ?thesis by (simp add: joining_def)
qed

lemma conn4_state_simps [simp]:
  "cs_client_id conn4_state = ''al''" "cs_content conn4_state = []" "cs_version conn4_state = 0"
  "cs_queue conn4_state = []" "cs_queue_cap conn4_state = 0" "\<not> cs_has_inflight conn4_state"
  "cs_next_op_number conn4_state = 1" "cs_send_fn conn4_state" "cs_queue_len conn4_state = 0"
  by (simp_all add: conn4_state_def cs_queue_len_def)

section \<open>Typing\<close>

definition typed_state :: TsClientState where
  "typed_state = fst (state_pump (queued_state conn4_state key_x))"
definition sent_x :: TsMessage where
  "sent_x = op_message conn4_state (new_pending conn4_state key_x)"

lemma queued_x: "ts_client_state_queue_operation True conn4_state key_x =
    Some (0, Some (po_op_id (new_pending conn4_state key_x)), typed_state, [sent_x])"
  by (simp add: queue_operation_eq c_int_max_def typed_state_def sent_x_def)
    (simp add: pump_sends queued_state_def push_queue_def op_message_def)

lemma typed_state_simps [simp]:
  "cs_content typed_state = []" "cs_has_inflight typed_state" "cs_send_fn typed_state"
  "cs_queue typed_state = []" "po_op_id (cs_inflight typed_state) = make_op_id ''al'' 1"
  by (simp_all add: typed_state_def pump_sends queued_state_def push_queue_def new_pending_def)

lemma sent_x_simps [simp]:
  "msg_type sent_x = ''OP''" "msg_op_id sent_x = make_op_id ''al'' 1" "msg_base_version sent_x = 0"
  "msg_op sent_x = key_x" "msg_has_op sent_x"
  by (simp_all add: sent_x_def op_message_def new_pending_def make_op_id_def snprintf_buf_def)

definition doc0 :: TsDocument where
  "doc0 = ts_document_init (Some []) 1000"
definition doc1 :: TsDocument where
  "doc1 = accept_doc doc0 ''al'' (make_op_id ''al'' 1) 0 key_x ''x''"

lemma x_char: "\<not> is_utf8_continuation CHR ''x''"
  by code_simp

lemma accept_x: "ts_document_process_operation doc0 ''al'' (make_op_id ''al'' 1) 0 (Some key_x) =
   Some (accept_result doc0 ''al'' (make_op_id ''al'' 1) 0 key_x ''x'', doc1)"
proof -
  have "transformed_op doc0 0 key_x = key_x"
    by (simp add: transformed_op_def doc0_def ts_document_init_def transform_from_history_def normalize_for_apply_def ts_operation_clone_def Let_def)
  moreover have "ts_apply_operation_to_text (Some []) (Some key_x) = Some ''x''"
    unfolding key_x_def by code_simp
  moreover have "\<not> rejected (Some key_x)" "base_in_range doc0 0" 
    by (simp_all add: rejected_def x_char base_in_range_def doc0_def ts_document_init_def)
  ultimately show ?thesis
    by (simp add: process_accepted process_accept_eq doc1_def) (simp add: doc0_def ts_document_init_def c_int_max_def ts_strdup_def)
qed


definition server1 :: TsServer where
  "server1 = example_start\<lparr>sv_clients := [conn4], sv_document := doc1\<rparr>"

lemma transformed_x: "transformed_op doc0 0 key_x = key_x"
    by (simp add: transformed_op_def doc0_def ts_document_init_def transform_from_history_def normalize_for_apply_def ts_operation_clone_def Let_def)

lemma dispatch_x:
  "\<exists>effects. dispatch_message (example_start\<lparr>sv_clients := [conn4]\<rparr>) conn4 (arrive sent_x) = Some (effects, server1) \<and>
     sent_to 4 effects = [make_ack ''al'' (make_op_id ''al'' 1) 0 1 1 key_x key_x]"
  by (simp add: dispatch_message_def example_start_simps doc0_def [symmetric] conn4_def accept_x Let_def server1_def)
    (simp add: accept_result_def broadcast_message_def transformed_x, simp add: doc0_def ts_document_init_def)

lemma ack_x: "\<exists>st. ts_client_state_handle_message typed_state
   (arrive (make_ack ''al'' (make_op_id ''al'' 1) 0 1 1 key_x key_x)) = Some (st, [])"
proof -
  let ?m = "make_ack ''al'' (make_op_id ''al'' 1) 0 1 1 key_x key_x"
  have "length (make_op_id ''al'' 1) < 64" by (simp add: make_op_id_def snprintf_buf_def ts_sizes)
  then have m: "msg_type ?m = ''ACK''" "msg_op_id ?m = make_op_id ''al'' 1" "msg_has_op ?m" "msg_op ?m = key_x" "msg_version ?m = 1"
    by (simp_all add: make_ack_def) (simp_all add: snprintf_buf_def ts_sizes)
  have "good_op key_x" using utf8_char_ascii [OF example_ascii(3)] by (simp add: good_op_def)
  with acknowledged [of typed_state "arrive ?m"] m show ?thesis by auto
qed

lemma typing: "\<exists>s. run_ops sys_step (joining @ typing_x)
    (sys_init example_start) = Some s \<and>
    sv_clients (sys_server s) = [conn4] \<and> doc_text (sv_document (sys_server s)) = ''x'' \<and> sys_ready s 4 \<and>
    sys_up s 4 = [] \<and> sys_down s 4 = []"
proof -
  obtain s3 where s3: "run_ops sys_step joining (sys_init example_start) = Some s3"
    "sys_server s3 = example_start\<lparr>sv_clients := [conn4]\<rparr>" "sys_client s3 4 = conn4_state"
    "sys_up s3 4 = []" "sys_down s3 4 = []" "sys_ready s3 4" using hello by blast
  obtain s4 where s4: "sys_step (TypeKey 4 key_x) s3 = Some s4" "sys_server s4 = sys_server s3"
    "sys_client s4 4 = typed_state" "sys_up s4 4 = [sent_x]" "sys_down s4 4 = []" "sys_ready s4 4"
    using s3 by (simp add: sys_step_def sys_type_def queued_x)
  from dispatch_x obtain effects where e: 
    "dispatch_message (sys_server s4) conn4 (arrive sent_x) = Some (effects, server1)"
    "sent_to 4 effects = [make_ack ''al'' (make_op_id ''al'' 1) 0 1 1 key_x key_x]" using s3(2) s4(2) by auto
  obtain s5 where s5: "sys_step (ServerReads 4) s4 = Some s5" "sys_server s5 = server1"
    "sys_client s5 4 = typed_state" "sys_up s5 4 = []" "sys_ready s5 4"
    "sys_down s5 4 = [make_ack ''al'' (make_op_id ''al'' 1) 0 1 1 key_x key_x]"
    using s4 s3(2) e by (simp add: sys_step_def sys_server_reads_def deliver_simps)
  from ack_x obtain st where "ts_client_state_handle_message (sys_client s5 4)
     (arrive (make_ack ''al'' (make_op_id ''al'' 1) 0 1 1 key_x key_x)) = Some (st, [])" using s5(3) by auto
  from client_reads_Some [OF s5(6) _ this, of conn4] s5 obtain s6 where "sys_step (ClientReads 4) s5 = Some s6"
    "sys_server s6 = server1" "sys_up s6 4 = []" "sys_down s6 4 = []" "sys_ready s6 4" by (auto simp: server1_def)
  with s4 s5 run_ops_append [of sys_step joining typing_x "sys_init example_start"] s3(1)
  show ?thesis by (simp add: typing_x_def server1_def doc1_def)
qed


lemma example_facts:
  "valid_utf8 []" "list_all ok_event joining" "list_all ok_event (joining @ typing_x)"
  "doc_history_limit (sv_document example_start) = 1000"
  "int 1000 + 1 < c_int_max"
  "(fst (server_main_init [''server''] (Some [])), example_start) = server_main_init [''server''] (Some [])"
  using utf8_char_ascii [OF example_ascii(3)]
  by (simp_all add: joining_def typing_x_def ok_event_def key_op_def good_op_def example_start_simps ts_document_init_def c_int_max_def example_start_def [symmetric])
    (simp_all add: example_start_def)

end
