(* ===== verification/Message_Fits.thy ===== *)
theory Message_Fits
  imports Transport_Correct Server_Correct Document_Correct
begin

text \<open>
  The fixed buffers of a message never overflow: whatever bytes a peer sends, every string of the
  message that is received fits its buffer and its operations have positions of a \<open>size_t\<close>; and
  whatever such message the server handles, the messages it sends fit as well.
\<close>

section \<open>Reading strings\<close>

definition fits_message :: "TsMessage \<Rightarrow> bool" where
  "fits_message m \<longleftrightarrow>
     buffer TS_MAX_TYPE (msg_type m) \<and> buffer TS_MAX_CLIENT_ID (msg_client_id m) \<and>
     buffer TS_MAX_OP_ID (msg_op_id m) \<and> buffer TS_MAX_STATUS (msg_message m) \<and>
     buffer TS_MAX_REASON (msg_reason m) \<and> wf_operation (msg_op m) \<and> wf_operation (msg_original_op m) \<and>
     (case msg_content m of None \<Rightarrow> True | Some c \<Rightarrow> is_cstr c)"

lemma suffix_cstr: "suffix s t \<Longrightarrow> is_cstr t \<Longrightarrow> is_cstr s"
  by (auto simp: suffix_def)

lemma skip_ws_suffix: "suffix (skip_ws s) s"
  by (induction s) (auto simp: suffix_ConsI)

lemma strstr_suffix: "strstr s p = Some q \<Longrightarrow> suffix q s"
  by (induction s p rule: strstr.induct) (auto split: if_splits simp: suffix_ConsI)

lemma find_key_loop_suffix: "find_key_loop s p = Some q \<Longrightarrow> suffix q s"
proof (induction s p rule: find_key_loop.induct)
  case (1 s pat)
  from "1.prems" obtain r where r: "strstr s pat = Some r"
    by (subst (asm) find_key_loop.simps) (auto split: option.splits)
  let ?after = "skip_ws (drop (length pat) r)"
  have sr: "suffix (drop (length pat) r) s"
    using strstr_suffix [OF r] suffix_drop suffix_order.trans by blast
  show ?case
  proof (cases "?after \<noteq> [] \<and> hd ?after = CHR '':''")
    case True
    with "1.prems" r have "q = skip_ws (tl ?after)" by (subst (asm) find_key_loop.simps) (simp add: Let_def)
    moreover have "suffix (tl ?after) ?after" by (metis suffix_drop drop_Suc drop0)
    ultimately show ?thesis using skip_ws_suffix sr by (meson suffix_order.trans)
  next
    case False
    with "1.prems" r have "pat \<noteq> []" "find_key_loop (drop (length pat) r) pat = Some q"
      by (subst (asm) find_key_loop.simps, auto simp: Let_def split: if_splits)+
    with "1.IH" [OF r refl] False sr show ?thesis by (meson suffix_order.trans)
  qed
qed

lemma find_key_cstr: "find_key s k = Some q \<Longrightarrow> is_cstr s \<Longrightarrow> is_cstr q"
  unfolding find_key_def using find_key_loop_suffix suffix_cstr by blast

definition escape_code :: "char \<Rightarrow> char \<Rightarrow> char \<Rightarrow> char \<Rightarrow> int option" where
  "escape_code c1 c2 c3 c4 =
     (let h1 = hex_value c1; h2 = hex_value c2; h3 = hex_value c3; h4 = hex_value c4 in
      if h1 < 0 \<or> h2 < 0 \<or> h3 < 0 \<or> h4 < 0 then None
      else Some (push_bit 12 h1 OR push_bit 8 h2 OR push_bit 4 h3 OR h4))"

definition add_code :: "TsStringBuilder \<Rightarrow> int \<Rightarrow> TsStringBuilder" where
  "add_code sb code =
     (if 0 < code \<and> code < 0x80 then sb_appendf sb [char_of (nat code)] else sb_append sb ''?'')"

lemma parse_loop_unicode:
  "parse_json_string_loop (CHR 0x5C # CHR ''u'' # v) sb =
     (case (char_at v 0, char_at v 1, char_at v 2, char_at v 3) of
        (Some c1, Some c2, Some c3, Some c4) \<Rightarrow>
          (case escape_code c1 c2 c3 c4 of
             None \<Rightarrow> Some None
           | Some code \<Rightarrow> parse_json_string_loop (drop 4 v) (add_code sb code))
      | _ \<Rightarrow> None)"
proof -
  have n: "CHR 0x5C \<noteq> CHR 0x22" "CHR ''u'' \<noteq> CHR 0x22" "CHR ''u'' \<noteq> CHR 0x5C" "CHR ''u'' \<noteq> CHR ''/''"
    "CHR ''u'' \<noteq> CHR ''n''" "CHR ''u'' \<noteq> CHR ''r''" "CHR ''u'' \<noteq> CHR ''t''" by simp_all
  show ?thesis
    by (subst parse_json_string_loop.simps, simp only: n list.case if_False if_True simp_thms)
      (auto simp only: escape_code_def add_code_def Let_def option.case prod.case if_False if_True
        split: option.splits if_splits)
qed


lemma char_of_code: "0 < c \<Longrightarrow> c < 0x80 \<Longrightarrow> char_of (nat c) \<noteq> CHR 0x00"
proof
  assume c: "0 < c" "c < 0x80" and "char_of (nat c) = CHR 0x00"
  then have "of_char (char_of (nat c) :: char) = (of_char CHR 0x00 :: nat)" by simp
  with c show False by simp
qed

lemma add_code_cstr: "is_cstr (sb_text sb) \<Longrightarrow> is_cstr (sb_text (add_code sb code))"
  by (auto simp: add_code_def c_int_max_def char_of_code)

lemma parse_loop_cstr:
  "parse_json_string_loop s sb = Some (Some (t, r)) \<Longrightarrow> is_cstr s \<Longrightarrow> is_cstr (sb_text sb) \<Longrightarrow> is_cstr t"
proof (induction "length s" arbitrary: s sb rule: less_induct)
  case less
  have IH: "is_cstr t" if "parse_json_string_loop s' sb' = Some (Some (t, r))" "length s' < length s" "is_cstr s'"
    "is_cstr (sb_text sb')" for s' sb' using less.hyps that by blast
  show ?case
  proof (cases s)
    case Nil
    with less.prems show ?thesis by (simp add: parse_json_string_loop.simps)
  next
    case s: (Cons ch u)
    then have u: "is_cstr u" "ch \<noteq> CHR 0x00" using less.prems by auto
    show ?thesis
    proof (cases "ch = CHR 0x5C")
      case ch: True
      show ?thesis
      proof (cases u)
        case Nil
        with less.prems s ch show ?thesis by (simp add: parse_json_string_loop.simps)
      next
        case v: (Cons esc v)
        show ?thesis
        proof (cases "esc = CHR ''u''")
          case True
          with less.prems s ch v obtain code where
            "parse_json_string_loop (drop 4 v) (add_code sb code) = Some (Some (t, r))"
            by (auto simp: parse_loop_unicode split: option.splits)
          then show ?thesis using less.prems(3) u v s IH [of "drop 4 v" "add_code sb code"] by (auto simp: add_code_cstr)
        next
          case False
          with less.prems s ch v obtain a where "parse_json_string_loop v a = Some (Some (t, r))"
            "sb_text a = sb_text sb @ [esc] \<or> (\<exists>c \<in> {CHR 0x0A, CHR 0x0D, CHR 0x09}. sb_text a = sb_text sb @ [c])"
            by (subst (asm) parse_json_string_loop.simps) (force simp: c_int_max_def split: if_splits)
          then show ?thesis using less.prems(3) u v s IH [of v a] by auto
        qed
      qed
    next
      case ch: False
      with less.prems s consider "t = sb_text sb" | "parse_json_string_loop u (sb_append sb [ch]) = Some (Some (t, r))"
        by (subst (asm) parse_json_string_loop.simps) (auto split: if_splits)
      then show ?thesis using less.prems(3) u s by cases (auto intro: IH)
    qed
  qed
qed

lemma is_cstr_tl: "is_cstr s \<Longrightarrow> is_cstr (tl s)"
  by (cases s) auto

lemma json_get_string_buffer:
  "json_get_string s k n = Some (Some t) \<Longrightarrow> is_cstr s \<Longrightarrow> 0 < n \<Longrightarrow> buffer n t"
  by (auto simp: json_get_string_def parse_json_string_alloc_def buffer_def sb_zero_def sb_text_def length_snprintf_buf
      split: option.splits bind_splits if_splits dest!: find_key_cstr
      intro!: is_cstr_snprintf_buf intro: is_cstr_tl elim!: parse_loop_cstr)

lemma json_get_content_cstr:
  "json_get_content s k = Some (Some t) \<Longrightarrow> is_cstr s \<Longrightarrow> is_cstr t"
  by (auto simp: json_get_content_def parse_json_string_alloc_def sb_zero_def sb_text_def
      split: option.splits bind_splits if_splits dest!: find_key_cstr intro: is_cstr_tl elim!: parse_loop_cstr)


section \<open>Decoding\<close>

lemma object_scan_cstr:
  "object_scan v i e d seen = Some t \<Longrightarrow> is_cstr v \<Longrightarrow> is_cstr seen \<Longrightarrow> is_cstr t"
  by (induction v i e d seen rule: object_scan.induct) (auto simp: Let_def split: if_splits)

lemma json_get_object_cstr: "json_get_object s k = Some t \<Longrightarrow> is_cstr s \<Longrightarrow> is_cstr t"
  by (auto simp: json_get_object_def split: option.splits if_splits dest!: find_key_cstr
      elim!: object_scan_cstr)

lemma to_c_int_range: "to_c_int x \<le> c_int_max"
proof -
  have "(x + 2147483648) mod 4294967296 < 4294967296" by simp
  then show ?thesis by (simp add: to_c_int_def c_int_max_def)
qed

lemma json_get_int_range: "json_get_int s k = Some v \<Longrightarrow> v \<le> c_int_max"
  by (auto simp: json_get_int_def to_c_int_range split: option.splits)

lemma zero_fits [simp]: "wf_operation zero_operation"
  by (simp add: wf_operation_def zero_operation_def ts_sizes)

lemma parse_operation_fits:
  assumes "parse_operation_object json error n = Some (rc, op, e)" and "is_cstr json"
  shows "wf_operation op"
proof -
  note buf = json_get_string_buffer [OF _ assms(2)]
  have sizes: "0 < TS_MAX_REASON" "0 < TS_MAX_UTF8_CHAR" by (simp_all add: ts_sizes)
  have zero: "wf_operation (zero_operation\<lparr>op_kind := k\<rparr>)" for k
    by (simp add: wf_operation_def zero_operation_def ts_sizes)
  have reason: "wf_operation (p\<lparr>op_reason := out_default (op_reason p) r\<rparr>)"
    if "wf_operation p" "json_get_string json k TS_MAX_REASON = Some r" for p r k
    using that buf [of k TS_MAX_REASON] sizes by (cases r) (auto simp: out_default_def wf_operation_def buffer_def)
  have ch: "wf_operation (p\<lparr>op_ch := snprintf_buf TS_MAX_UTF8_CHAR t\<rparr>)"
    if "wf_operation p" "json_get_string json k TS_MAX_UTF8_CHAR = Some (Some t)" for p t k
    using that buf [of k TS_MAX_UTF8_CHAR t] sizes by (auto simp: wf_operation_def buffer_def)
  have pos: "wf_operation (case json_get_int json k of None \<Rightarrow> p | Some v \<Rightarrow> if v > 0 then p\<lparr>op_pos := nat v\<rparr> else p)"
    if "wf_operation p" for p k
    using that json_get_int_range [of json k] by (auto simp: wf_operation_def c_int_max_def split: option.splits)
  from assms(1) obtain kind where k: "json_get_string json ''kind'' TS_MAX_TYPE = Some kind"
    by (auto simp: parse_operation_object_def split: bind_splits)
  show ?thesis
  proof (cases kind)
    case None
    with assms(1) k zero_fits show ?thesis by (auto simp: parse_operation_object_def)
  next
    case (Some name)
    define p where "p = zero_operation\<lparr>op_kind := ts_operation_kind_from_name (Some name)\<rparr>"
    define q where "q = (case json_get_int json ''pos'' of None \<Rightarrow> p | Some v \<Rightarrow> if v > 0 then p\<lparr>op_pos := nat v\<rparr> else p)"
    have pq: "wf_operation p" "wf_operation q" unfolding q_def using zero pos by (simp_all add: p_def)
    from assms(1) k Some have e: "(if op_kind p = TS_OP_INVALID then
            Some (-1, p, snprintf_buf n (''unsupported operation kind: '' @ name))
          else if op_kind q = TS_OP_INSERT then do {
               ch \<leftarrow> json_get_string json ''char'' TS_MAX_UTF8_CHAR;
               case ch of
                 None \<Rightarrow> Some (-1, q,
                   snprintf_buf n ''insert operation requires one UTF-8 character'')
               | Some ch \<Rightarrow>
                   if ts_utf8_char_count (Some ch) \<noteq> 1 then
                     Some (-1, q, snprintf_buf n ''insert operation requires one UTF-8 character'')
                   else do {
                     let op = q\<lparr>op_ch := snprintf_buf TS_MAX_UTF8_CHAR ch\<rparr>;
                     reason \<leftarrow> json_get_string json ''reason'' TS_MAX_REASON;
                     Some (0, op\<lparr>op_reason := out_default (op_reason op) reason\<rparr>, error)
                   }
             } else do {
               reason \<leftarrow> json_get_string json ''reason'' TS_MAX_REASON;
               Some (0, q\<lparr>op_reason := out_default (op_reason q) reason\<rparr>, error)
             }) = Some (rc, op, e)"
      by (simp only: parse_operation_object_def Option.bind_lunit option.case Let_def p_def [symmetric] q_def [symmetric])
    show ?thesis
    proof (cases "op_kind q = TS_OP_INSERT")
      case True
      have both: "wf_operation (q\<lparr>op_ch := snprintf_buf TS_MAX_UTF8_CHAR t, op_reason := out_default (op_reason q) r\<rparr>)"
        if "json_get_string json ''char'' TS_MAX_UTF8_CHAR = Some (Some t)"
          "json_get_string json ''reason'' TS_MAX_REASON = Some r" for t r
        using reason [OF ch [OF pq(2) that(1)] that(2)] by simp
      from True e pq show ?thesis by (auto simp: Let_def split: if_splits option.splits bind_splits intro: both)
    next
      case False
      with e pq reason show ?thesis by (auto split: if_splits bind_splits)
    qed
  qed
qed


lemma default_buffer:
  "json_get_string s k n = Some r \<Longrightarrow> is_cstr s \<Longrightarrow> 0 < n \<Longrightarrow> buffer n (out_default [] r)"
  by (cases r) (auto simp: out_default_def buffer_def dest: json_get_string_buffer)

lemma decoded_message_fits:
  assumes "is_cstr line" and "ts_decode_message line error n = Some (rc, m, e)"
  shows "fits_message m"
proof -
  let ?json = "skip_ws line"
  have json: "is_cstr ?json" using suffix_cstr [OF skip_ws_suffix assms(1)] .
  note str = default_buffer [OF _ json] and buf = json_get_string_buffer [OF _ json]
  have sizes: "0 < TS_MAX_TYPE" "0 < TS_MAX_CLIENT_ID" "0 < TS_MAX_OP_ID" "0 < TS_MAX_STATUS" "0 < TS_MAX_REASON"
    by (simp_all add: ts_sizes)
  have init: "fits_message ts_message_init" using sizes by (simp add: fits_message_def buffer_def)
  have op: "fits_message (p\<lparr>msg_op := q, msg_has_op := b\<rparr>)" "fits_message (p\<lparr>msg_op := q\<rparr>)"
    if "fits_message p" "json_get_object ?json k = Some j" "parse_operation_object j error n = Some (r, q, x)" for p q b k j r x
    using that parse_operation_fits [OF that(3) json_get_object_cstr [OF that(2) json]] by (simp_all add: fits_message_def)
  have orig: "fits_message (p\<lparr>msg_original_op := q, msg_has_original_op := b\<rparr>)" "fits_message (p\<lparr>msg_original_op := q\<rparr>)"
    if "fits_message p" "json_get_object ?json k = Some j" "parse_operation_object j x n = Some (r, q, y)" for p q b k j r x y
    using that parse_operation_fits [OF that(3) json_get_object_cstr [OF that(2) json]] by (simp_all add: fits_message_def)
  show ?thesis
  proof (cases "?json = [] \<or> hd ?json \<noteq> CHR 0x7B")
    case True
    with assms(2) init show ?thesis by (auto simp: ts_decode_message_def Let_def)
  next
    case False
    with assms(2) obtain ty where ty: "json_get_string ?json ''type'' TS_MAX_TYPE = Some ty"
      by (auto simp: ts_decode_message_def Let_def split: bind_splits)
    show ?thesis
    proof (cases ty)
      case None
      with False assms(2) ty init show ?thesis by (auto simp: ts_decode_message_def Let_def)
    next
      case (Some t)
      with False assms(2) ty obtain cid oid ms re co where f: 
        "json_get_string ?json ''client_id'' TS_MAX_CLIENT_ID = Some cid"
        "json_get_string ?json ''op_id'' TS_MAX_OP_ID = Some oid"
        "json_get_string ?json ''message'' TS_MAX_STATUS = Some ms"
        "json_get_string ?json ''reason'' TS_MAX_REASON = Some re"
        "json_get_content ?json ''content'' = Some co"
        by (auto simp: ts_decode_message_def Let_def split: bind_splits)
      define p where "p = ts_message_init\<lparr>
              msg_type := t,
              msg_client_id := out_default [] cid,
              msg_op_id := out_default [] oid,
              msg_message := out_default [] ms,
              msg_reason := out_default [] re,
              msg_base_version := out_default (-1) (json_get_int ?json ''base_version''),
              msg_server_version := out_default (-1) (json_get_int ?json ''server_version''),
              msg_version := out_default (-1) (json_get_int ?json ''version''),
              msg_history_start_version := out_default (-1) (json_get_int ?json ''history_start_version''),
              msg_content := co\<rparr>"
      have p: "fits_message p"
        using buf [of "''type''" TS_MAX_TYPE t] ty Some str [OF f(1)] str [OF f(2)] str [OF f(3)] str [OF f(4)] sizes
          json_get_content_cstr [OF _ json, of "''content''"] f(5)
        by (auto simp: p_def fits_message_def split: option.splits)
      define first :: "(int \<times> TsMessage \<times> string) option" where "first = (case json_get_object ?json ''op'' of
                 None \<Rightarrow> Some (0, p, error)
               | Some op_json \<Rightarrow> do {
                   (rc, op, error) \<leftarrow> parse_operation_object op_json error n;
                   if rc \<noteq> 0 then Some (-1, the (ts_message_free (Some (p\<lparr>msg_op := op\<rparr>))), error)
                   else Some (0, p\<lparr>msg_op := op, msg_has_op := True\<rparr>, error)
                 })"
      from False assms(2) ty Some f have e: "do {
            (rc, message, error) \<leftarrow>
              first;
            if rc \<noteq> 0 then Some (rc, message :: TsMessage, error)
            else
              (case json_get_object ?json ''original_op'' of
                 None \<Rightarrow> Some (0, message, error)
               | Some original_json \<Rightarrow> do {
                   (rc, op, error) \<leftarrow> parse_operation_object original_json error n;
                   if rc = 0
                   then Some (0, message\<lparr>msg_original_op := op, msg_has_original_op := True\<rparr>, error)
                   else Some (0, message\<lparr>msg_original_op := op\<rparr>, error)
                 })
          } = Some (rc, m, e)"
        by (simp only: ts_decode_message_def Let_def p_def [symmetric] first_def [symmetric] Option.bind_lunit option.case if_False)
      have free: "fits_message (the (ts_message_free (Some u)))" if "fits_message u" for u
        using that by (simp add: fits_message_def ts_message_free_def)
      obtain r1 m1 e1 where m1: "first = Some (r1, m1, e1)" using e by (cases first) auto
      then have "fits_message m1" using p op [OF p] free unfolding first_def
        by (fastforce split: option.splits bind_splits if_splits)
      from e [unfolded m1] show ?thesis using \<open>fits_message m1\<close> orig [OF \<open>fits_message m1\<close>]
        by (fastforce split: option.splits bind_splits if_splits)
    qed
  qed
qed

section \<open>Receiving\<close>

lemma c_string_of_cstr: "is_cstr (c_string_of s)"
  by (auto simp: c_string_of_def is_cstr_def dest: set_takeWhileD)

text \<open>C28: Whatever bytes come in, and however they are cut into reads, every string of a received message fits
  its buffer with its terminator, and the operations in it are well-formed.\<close>

theorem received_message_fits:
  assumes "fits_message message"
    and "ts_transport_recv transport message error n input = Some (Returned rc m e, transport', input')"
  shows "fits_message m"
  using assms
proof (induction transport message error n input rule: ts_transport_recv.induct)
  case (1 transport message error n input)
  show ?case
  proof (cases "find_newline (tr_buffer transport)")
    case (Some i)
    with "1.prems"(2) show ?thesis
      by (subst (asm) ts_transport_recv.simps) 
        (auto split: bind_splits intro: decoded_message_fits [OF c_string_of_cstr])
  next
    case None
    show ?thesis
    proof (cases "TS_MAX_LINE_BYTES \<le> length (tr_buffer transport)")
      case True
      with None "1.prems" show ?thesis by (subst (asm) ts_transport_recv.simps) simp
    next
      case False
      then have room: "\<not> length (tr_buffer transport) \<ge> TS_MAX_LINE_BYTES" by simp
      show ?thesis
      proof (cases input)
        case Nil
        with None False "1.prems" show ?thesis by (subst (asm) ts_transport_recv.simps) simp
      next
        case (Cons r rest)
        show ?thesis
        proof (cases r)
          case ReadInterrupted
          with None False Cons "1.prems"(2) have "ts_transport_recv transport message error n rest =
              Some (Returned rc m e, transport', input')" by (subst (asm) ts_transport_recv.simps) simp
          with "1.IH" None room Cons ReadInterrupted "1.prems"(1) show ?thesis by blast
        next
          case (ReadFailed why)
          with None False Cons "1.prems" show ?thesis by (subst (asm) ts_transport_recv.simps) simp
        next
          case (ReadData bytes)
          let ?room = "TS_MAX_LINE_BYTES - length (tr_buffer transport)"
          show ?thesis
          proof (cases "bytes = []")
            case True
            with None False Cons ReadData "1.prems" show ?thesis by (subst (asm) ts_transport_recv.simps) simp
          next
            case bytes: False
            with None False Cons ReadData "1.prems"(2) have "ts_transport_recv
                (transport\<lparr>tr_buffer := tr_buffer transport @ take ?room bytes\<rparr>) message error n
                (if drop ?room bytes = [] then rest else ReadData (drop ?room bytes) # rest) =
                Some (Returned rc m e, transport', input')"
              by (subst (asm) ts_transport_recv.simps) (simp add: Let_def)
            with "1.IH" None room Cons ReadData bytes "1.prems"(1) show ?thesis by blast
          qed
        qed
      qed
    qed
  qed
qed

lemma utf8_step_cstr:
  "ts_apply_operation_to_text (Some t) (Some op) = Some t' \<Longrightarrow> is_cstr t \<Longrightarrow> is_cstr (op_ch op) \<Longrightarrow> is_cstr t'"
  by (auto simp: ts_apply_operation_to_text_def Let_def ts_strdup_def split: if_splits bind_splits)

lemma transformed_wf: "wf_operation op \<Longrightarrow> wf_operation (transformed_op doc b op)"
proof -
  have "wf_operation p \<Longrightarrow> wf_operation (foldl (\<lambda>transformed entry.
              if he_server_version entry > b
              then ts_transform_against transformed (he_op entry) else transformed) p h)" for p and h :: "TsHistoryEntry list"
    by (induction h arbitrary: p) (auto intro: transform_wf)
  then show "wf_operation op \<Longrightarrow> wf_operation (transformed_op doc b op)"
    by (auto simp: transformed_op_def transform_from_history_def intro: normalize_wf)
qed


section \<open>What the server sends\<close>

lemma init_fits: "fits_message ts_message_init"
  by (simp add: fits_message_def buffer_def ts_sizes)

lemma buffer_snprintf [simp]: "is_cstr s \<Longrightarrow> 0 < n \<Longrightarrow> buffer n (snprintf_buf n s)"
  by (simp add: buffer_def length_snprintf_buf)

lemma buffer_cstr: "buffer n s \<Longrightarrow> is_cstr s"
  by (simp add: buffer_def)

lemma sizes_pos [simp]: "0 < TS_MAX_TYPE" "0 < TS_MAX_CLIENT_ID" "0 < TS_MAX_OP_ID" "0 < TS_MAX_STATUS" "0 < TS_MAX_REASON"
  by (simp_all add: ts_sizes)

lemma message_simps [simp]: "buffer n [] \<longleftrightarrow> 0 < n"
  by (simp add: buffer_def)

lemma snapshot_fits: "is_cstr (doc_text doc) \<Longrightarrow> fits_message (ts_document_snapshot doc)"
  by (simp add: fits_message_def ts_document_snapshot_def ts_strdup_def)

lemma error_fits: "is_cstr oid \<Longrightarrow> is_cstr t \<Longrightarrow> fits_message (set_message_error (Some oid) t)"
  by (simp add: fits_message_def set_message_error_def)

lemma processed_fits:
  assumes p: "ts_document_process_operation doc cid oid b op = Some (r, doc')"
    and cs: "is_cstr (doc_text doc)" "is_cstr cid" "is_cstr oid" and op: "\<And>q. op = Some q \<Longrightarrow> wf_operation q"
  shows "is_cstr (doc_text doc') \<and> (res_status r = TS_PROCESS_OK \<longrightarrow> fits_message (res_ack r) \<and> fits_message (res_remote r)) \<and>
    list_all fits_message (res_messages r)"
proof (cases "rejected op")
  case True
  with p cs show ?thesis
    by (auto simp: rejected_def ts_document_process_operation_def process_error_def Let_def ts_process_result_init_def init_fits
        error_fits split: option.splits if_splits)
next
  case ok: False
  then obtain q where q: "op = Some q" by (cases op) (auto simp: rejected_def)
  show ?thesis
  proof (cases "base_in_range doc b")
    case False
    with p ok cs have "r = process_resync doc oid b" "doc' = doc" by (auto simp: process_out_of_range)
    with cs show ?thesis by (simp add: process_resync_def ts_process_result_init_def fits_message_def ts_strdup_def)
  next
    case True
    with p ok q obtain t where t: "r = accept_result doc cid oid b q t" "doc' = accept_doc doc cid oid b q t"
      "ts_apply_operation_to_text (Some (doc_text doc)) (Some (transformed_op doc b q)) = Some t"
      by (auto simp: process_accepted process_accept_eq split: if_splits)
    have w: "wf_operation q" "wf_operation (transformed_op doc b q)" using op q transformed_wf by auto
    with utf8_step_cstr [OF t(3) cs(1)] have "is_cstr t" by (simp add: wf_operation_def)
    with t w cs show ?thesis
      by (simp add: accept_result_def make_ack_def make_remote_def fits_message_def ts_process_result_init_def)
  qed
qed

lemma no_client_effect: "ToClient i m \<notin> set (print_event e)" "ToClient i m \<notin> set (server_log l)"
  by (simp_all add: print_event_def server_log_def split: option.splits list.splits)

text \<open>C29: Handling any message that fits its buffers, on every branch, the server sends only messages that fit
  theirs, and its document stays a C string.\<close>

theorem server_messages_fit:
  assumes "fits_message m" and "is_cstr (cn_client_id c)" and "is_cstr (doc_text (sv_document server))"
    and "dispatch_message server c m = Some (effects, server')"
  shows "is_cstr (doc_text (sv_document server')) \<and> (\<forall>i m'. ToClient i m' \<in> set effects \<longrightarrow> fits_message m')"
proof (cases "msg_type m = ''OP''")
  case True
  let ?op = "if msg_has_op m then Some (msg_op m) else None"
  from assms(4) True obtain r doc' where r: "ts_document_process_operation (sv_document server) (cn_client_id c) (msg_op_id m)
      (msg_base_version m) ?op = Some (r, doc')" by (auto simp: dispatch_message_def split: bind_splits)
  have "is_cstr (msg_op_id m)" "wf_operation (msg_op m)" using assms(1) by (auto simp: fits_message_def buffer_def)
  moreover from this(2) have "\<And>q. ?op = Some q \<Longrightarrow> wf_operation q" by (simp split: if_splits)
  ultimately have f: "is_cstr (doc_text doc')" "res_status r = TS_PROCESS_OK \<Longrightarrow> fits_message (res_ack r) \<and> fits_message (res_remote r)"
    "list_all fits_message (res_messages r)"
    using processed_fits [OF r assms(3,2)] by simp_all
  from f(3) have msgs: "x \<in> set (take k (res_messages r)) \<Longrightarrow> fits_message x" for x k
    by (auto simp: list_all_iff dest: in_set_takeD)
  from assms(4) True r have server': "sv_document server' = doc'"
    by (auto simp: dispatch_message_def Let_def)
  have "fits_message m'" if "ToClient i m' \<in> set effects" for i m'
  proof (cases "res_status r = TS_PROCESS_OK")
    case ok: True
    with assms(4) True r that have "m' = res_ack r \<or> m' = res_remote r"
      by (auto simp: dispatch_message_def Let_def no_client_effect broadcast_message_def split: if_splits)
    with f(2) ok show ?thesis by blast
  next
    case no: False
    with assms(4) True r that have "m' \<in> set (take (res_message_count r) (res_messages r))"
      by (auto simp: dispatch_message_def Let_def)
    with msgs show ?thesis .
  qed
  with server' f(1) show ?thesis by blast
next
  case False
  let ?typed = "\<lambda>t. ts_message_init\<lparr>msg_type := snprintf_buf TS_MAX_TYPE t\<rparr>"
  have typed: "fits_message (?typed t)" "fits_message (?typed t\<lparr>msg_version := v\<rparr>)"
    "is_cstr u \<Longrightarrow> fits_message (?typed t\<lparr>msg_message := snprintf_buf TS_MAX_STATUS u\<rparr>)" if "is_cstr t" for t u v
    using that init_fits by (simp_all add: fits_message_def)
  have mt: "is_cstr (msg_type m)" using assms(1) by (simp add: fits_message_def buffer_def)
  have server': "server' = server" using assms(4) False by (simp add: dispatch_message_def Let_def split: if_splits)
  consider (save) "msg_type m = ''SAVE''" | (doc) "msg_type m = ''REQUEST_DOC''" | (ping) "msg_type m = ''PING''"
    | (other) "msg_type m \<noteq> ''SAVE''" "msg_type m \<noteq> ''REQUEST_DOC''" "msg_type m \<noteq> ''PING''" by blast
  then have "fits_message m'" if "ToClient i m' \<in> set effects" for i m'
  proof cases
    case save
    with assms(4) that have "m' = ?typed ''SAVE_QUEUED''\<lparr>msg_version := msg_version (ts_document_snapshot (sv_document server))\<rparr>"
      by (auto simp: dispatch_message_def Let_def no_client_effect)
    with typed(2) [of "''SAVE_QUEUED''"] show ?thesis by simp
  next
    case doc
    with assms(4) that snapshot_fits [OF assms(3)] show ?thesis by (auto simp: dispatch_message_def)
  next
    case ping
    with assms(4) that typed(1) [of "''PONG''"] show ?thesis by (auto simp: dispatch_message_def)
  next
    case other
    with False assms(4) that have "m' = ?typed ''ERROR''\<lparr>msg_message := snprintf_buf TS_MAX_STATUS (''unsupported message type: '' @ msg_type m)\<rparr>"
      by (auto simp: dispatch_message_def)
    with typed(3) [of "''ERROR''" "''unsupported message type: '' @ msg_type m"] mt show ?thesis by simp
  qed
  with server' assms(3) show ?thesis by blast
qed


section \<open>Concrete messages\<close>

theorem received_message_fits_witness:
  \<open>\<exists>m e tr. ts_transport_recv (ts_transport_init 3) ts_message_init [] 256
      [ReadInterrupted, ReadData (''{"type":"PING"}'' @ [CHR 0x0A])] =
      Some (Returned 0 m e, tr, []) \<and> msg_type m = ''PING'' \<and> fits_message m\<close>
proof -
  have "c_string_of ''{\"type\":\"PING\"}'' = ''{\"type\":\"PING\"}''" by (simp add: c_string_of_def)
  moreover have "ts_decode_message ''{\"type\":\"PING\"}'' [] 256 = Some (0, ts_message_init\<lparr>msg_type := ''PING''\<rparr>, [])" by code_simp
  ultimately have "ts_transport_recv (ts_transport_init 3) ts_message_init [] 256
      [ReadInterrupted, ReadData (''{\"type\":\"PING\"}'' @ [CHR 0x0A])] =
      Some (Returned 0 (ts_message_init\<lparr>msg_type := ''PING''\<rparr>) [], ts_transport_init 3, [])"
    by (subst ts_transport_recv.simps, simp add: ts_transport_init_def TS_MAX_LINE_BYTES_def,
        subst ts_transport_recv.simps, simp add: TS_MAX_LINE_BYTES_def,
        subst ts_transport_recv.simps, simp)
  with received_message_fits [OF init_fits this] show ?thesis by fastforce
qed

theorem server_messages_fit_witness:
  "\<exists>effects server' i m'. dispatch_message example_server (hd (sv_clients example_server)) (ts_message_init\<lparr>msg_type := ''PING''\<rparr>) = Some (effects, server') \<and>
    ToClient i m' \<in> set effects \<and> msg_type m' = ''PONG'' \<and> fits_message m'"
proof -
  let ?c = "hd (sv_clients example_server)"
  let ?pong = "ts_message_init\<lparr>msg_type := ''PONG''\<rparr>"
  have d: "dispatch_message example_server ?c (ts_message_init\<lparr>msg_type := ''PING''\<rparr>) =
      Some ([ToClient (cn_fd ?c) ?pong], example_server)"
    by (simp add: dispatch_message_def snprintf_buf_def ts_sizes)
  have "fits_message (ts_message_init\<lparr>msg_type := ''PING''\<rparr>)"
    using init_fits by (simp add: fits_message_def buffer_def ts_sizes)
  moreover have "is_cstr (cn_client_id ?c)" by (simp add: example_server_simps)
  moreover have "is_cstr (doc_text (sv_document example_server))"
    by (simp add: example_server_def server_main_init_def Let_def ts_document_init_def ts_strdup_def)
  ultimately have "fits_message ?pong" using server_messages_fit [OF _ _ _ d] by simp
  with d show ?thesis by fastforce
qed

end
