(* ===== verification/Files.thy ===== *)
theory Files
  imports Message
begin

text \<open>
  The file operations of \<open>autosave.c\<close>: creating the parent directories, copying, writing a file
  through a temporary one, saving with a backup and appending to the log; and the reading of the
  initial text from \<open>util.c\<close>. The file system is a
  parameter of the operating system; what the code relies on is written down as the meaning of
  the library calls on a store of files. Each call consumes one entry of a list of outcomes, so a
  theorem about every list covers every way in which the calls can fail; and the store remembers
  the states it has passed through, so a theorem about all of them covers a crash at any point.
\<close>

section \<open>The store\<close>

text \<open>\<open>Fails k\<close>: the call fails, after \<open>k\<close> bytes when it writes. \<open>Buffers k\<close>: the call succeeds, but only
  \<open>k\<close> of the bytes that were handed to the stream are in the file yet. When the list is used up,
  every call succeeds.\<close>

datatype io_outcome = Succeeds | Fails nat | Buffers nat

record file_system =
  fs_files :: "string \<Rightarrow> string option"
  fs_dirs :: "string list"
  fs_outcomes :: "io_outcome list"
  fs_past :: "(string \<Rightarrow> string option) list"

definition io_call :: "file_system \<Rightarrow> io_outcome \<times> file_system" where
  "io_call fs =
     (case fs_outcomes fs of
        [] \<Rightarrow> (Succeeds, fs)
      | outcome # outcomes \<Rightarrow> (outcome, fs\<lparr>fs_outcomes := outcomes\<rparr>))"

definition set_files :: "(string \<Rightarrow> string option) \<Rightarrow> file_system \<Rightarrow> file_system" where
  "set_files files fs = fs\<lparr>fs_files := files, fs_past := fs_files fs # fs_past fs\<rparr>"

text \<open>The states of the store since it was \<open>fs\<close> with an empty past, the present one included.\<close>

definition fs_states :: "file_system \<Rightarrow> (string \<Rightarrow> string option) list" where
  "fs_states fs = fs_files fs # fs_past fs"

section \<open>Streams\<close>

text \<open>A stream opened for writing: its file and the bytes it still holds back.\<close>

record FILE =
  fp_path :: string
  fp_pending :: string

definition add_bytes :: "string \<Rightarrow> string \<Rightarrow> file_system \<Rightarrow> file_system" where
  "add_bytes path bytes fs =
     set_files ((fs_files fs)(path \<mapsto> (case fs_files fs path of Some c \<Rightarrow> c | None \<Rightarrow> []) @ bytes)) fs"

definition fopen_wb :: "string \<Rightarrow> file_system \<Rightarrow> FILE option \<times> file_system" where
  "fopen_wb path fs =
     (case io_call fs of
        (Fails _, fs) \<Rightarrow> (None, fs)
      | (_, fs) \<Rightarrow> (Some \<lparr>fp_path = path, fp_pending = []\<rparr>, set_files ((fs_files fs)(path \<mapsto> [])) fs))"

definition fopen_ab :: "string \<Rightarrow> file_system \<Rightarrow> FILE option \<times> file_system" where
  "fopen_ab path fs =
     (case io_call fs of
        (Fails _, fs) \<Rightarrow> (None, fs)
      | (_, fs) \<Rightarrow> (Some \<lparr>fp_path = path, fp_pending = []\<rparr>, add_bytes path [] fs))"

text \<open>A stream opened for reading is the rest of the file.\<close>

definition fopen_rb :: "string \<Rightarrow> file_system \<Rightarrow> string option \<times> file_system" where
  "fopen_rb path fs =
     (case io_call fs of
        (Fails _, fs) \<Rightarrow> (None, fs)
      | (_, fs) \<Rightarrow> (fs_files fs path, fs))"

definition fread :: "nat \<Rightarrow> string \<Rightarrow> file_system \<Rightarrow> string \<times> string \<times> file_system" where
  "fread n input fs =
     (case io_call fs of
        (Fails k, fs) \<Rightarrow> (take (min k (n - 1)) input, drop (min k (n - 1)) input, fs)
      | (_, fs) \<Rightarrow> (take n input, drop n input, fs))"

text \<open>Whether \<open>fwrite\<close> reports all bytes as written; writing nothing never fails.\<close>

definition fwrite :: "string \<Rightarrow> FILE \<Rightarrow> file_system \<Rightarrow> bool \<times> FILE \<times> file_system" where
  "fwrite bytes fp fs =
     (let all = fp_pending fp @ bytes in
      case io_call fs of
        (Succeeds, fs) \<Rightarrow> (True, fp\<lparr>fp_pending := []\<rparr>, add_bytes (fp_path fp) all fs)
      | (Buffers k, fs) \<Rightarrow> (True, fp\<lparr>fp_pending := drop k all\<rparr>, add_bytes (fp_path fp) (take k all) fs)
      | (Fails k, fs) \<Rightarrow> (bytes = [], fp\<lparr>fp_pending := drop k all\<rparr>, add_bytes (fp_path fp) (take k all) fs))"

definition fclose :: "FILE \<Rightarrow> file_system \<Rightarrow> int \<times> file_system" where
  "fclose fp fs =
     (case io_call fs of
        (Fails k, fs) \<Rightarrow> (-1, add_bytes (fp_path fp) (take k (fp_pending fp)) fs)
      | (_, fs) \<Rightarrow> (0, add_bytes (fp_path fp) (fp_pending fp) fs))"

section \<open>Paths\<close>

definition rename :: "string \<Rightarrow> string \<Rightarrow> file_system \<Rightarrow> int \<times> file_system" where
  "rename old new fs =
     (case io_call fs of
        (Fails _, fs) \<Rightarrow> (-1, fs)
      | (_, fs) \<Rightarrow> if fs_files fs old = None then (-1, fs) else (0, if old = new then fs
                         else set_files ((fs_files fs)(new := fs_files fs old, old := None)) fs))"

definition access_exists :: "string \<Rightarrow> file_system \<Rightarrow> bool \<times> file_system" where
  \<comment> \<open>\<open>access(path, F_OK) == 0\<close>\<close>
  "access_exists path fs =
     (case io_call fs of
        (Fails _, fs) \<Rightarrow> (False, fs)
      | (_, fs) \<Rightarrow> (fs_files fs path \<noteq> None, fs))"

text \<open>\<open>mkdir(path, 0775) != 0 && errno != EEXIST\<close> is the negation of the result.\<close>

definition mkdir_or_exists :: "string \<Rightarrow> file_system \<Rightarrow> bool \<times> file_system" where
  "mkdir_or_exists path fs =
     (if path \<in> set (fs_dirs fs) \<or> fs_files fs path \<noteq> None then (True, fs)
      else case io_call fs of
        (Fails _, fs) \<Rightarrow> (False, fs)
      | (_, fs) \<Rightarrow> (True, fs\<lparr>fs_dirs := path # fs_dirs fs\<rparr>))"

definition PATH_MAX :: nat where
  "PATH_MAX = 4096"

text \<open>The part of a path before its last slash, or null when it has none.\<close>

definition before_last_slash :: "string \<Rightarrow> string option" where
  "before_last_slash path =
     (if CHR 0x2F \<in> set path then Some (rev (tl (dropWhile (\<lambda>c. c \<noteq> CHR 0x2F) (rev path)))) else None)"

text \<open>\<open>front\<close> is the part of the copy before \<open>p\<close>.\<close>

fun mkdir_loop :: "string \<Rightarrow> string \<Rightarrow> file_system \<Rightarrow> int \<times> file_system" where
  "mkdir_loop front [] fs = (0, fs)"
| "mkdir_loop front (c # p) fs =
     (if c = CHR 0x2F then
        (case mkdir_or_exists front fs of
           (False, fs) \<Rightarrow> (-1, fs)
         | (True, fs) \<Rightarrow> mkdir_loop (front @ [c]) p fs)
      else mkdir_loop (front @ [c]) p fs)"

definition mkdir_parent_recursive :: "string \<Rightarrow> file_system \<Rightarrow> int \<times> file_system" where
  "mkdir_parent_recursive path fs =
     (case before_last_slash (snprintf_buf PATH_MAX path) of
        None \<Rightarrow> (0, fs)
      | Some copy \<Rightarrow>
          if copy = [] then (0, fs)
          else case mkdir_loop (take 1 copy) (drop 1 copy) fs of
            (rc, fs) \<Rightarrow>
              if rc \<noteq> 0 then (-1, fs)
              else case mkdir_or_exists copy fs of
                (False, fs) \<Rightarrow> (-1, fs)
              | (True, fs) \<Rightarrow> (0, fs))"

definition suffix_path :: "string \<Rightarrow> string \<Rightarrow> nat \<Rightarrow> string" where
  "suffix_path path ending out_size = snprintf_buf out_size (path @ ending)"

section \<open>Copying and writing\<close>

lemma fread_length: "fread n input fs = (chunk, rest, fs') \<Longrightarrow> length rest + length chunk = length input"
  by (auto simp: fread_def split: prod.splits io_outcome.splits)

function copy_loop :: "string \<Rightarrow> FILE \<Rightarrow> file_system \<Rightarrow> int \<times> FILE \<times> file_system" where
  "copy_loop input out fs =
     (case fread 8192 input fs of
        (buffer, input, fs) \<Rightarrow>
          if buffer = [] then (0, out, fs)
          else case fwrite buffer out fs of
            (False, out, fs) \<Rightarrow> (-1, out, fs)
          | (True, out, fs) \<Rightarrow> copy_loop input out fs)"
  by pat_completeness auto
termination
proof (relation "measure (\<lambda>(input, _). length input)", goal_cases)
  case (2 input out fs buffer p rest fs1 r q out2 fs2)
  then have "fread 8192 input fs = (buffer, rest, fs1)" by simp
  from fread_length [OF this] 2(3) show ?case by (cases buffer) auto
qed simp

declare copy_loop.simps [simp del]

definition copy_file :: "string \<Rightarrow> string \<Rightarrow> file_system \<Rightarrow> int \<times> file_system" where
  "copy_file src dst fs =
     (case fopen_rb src fs of
        (None, fs) \<Rightarrow> (-1, fs)
      | (Some input, fs) \<Rightarrow>
          (case fopen_wb dst fs of
             (None, fs) \<Rightarrow> (-1, fs)
           | (Some out, fs) \<Rightarrow>
               (case copy_loop input out fs of
                  (rc, out, fs) \<Rightarrow>
                    if rc \<noteq> 0 then (-1, snd (fclose out fs)) else (0, snd (fclose out fs)))))"

definition ts_atomic_write_text :: "string \<Rightarrow> string option \<Rightarrow> file_system \<Rightarrow> int \<times> file_system" where
  "ts_atomic_write_text path content fs =
     (case mkdir_parent_recursive path fs of
        (rc, fs) \<Rightarrow>
          if rc \<noteq> 0 then (-1, fs)
          else let tmp_path = suffix_path path ''.tmp'' PATH_MAX in
          case fopen_wb tmp_path fs of
            (None, fs) \<Rightarrow> (-1, fs)
          | (Some fp, fs) \<Rightarrow>
              (let txt = (case content of Some c \<Rightarrow> c | None \<Rightarrow> []) in
               case fwrite txt fp fs of
                 (False, fp, fs) \<Rightarrow> (-1, snd (fclose fp fs))
               | (True, fp, fs) \<Rightarrow>
                   (case fclose fp fs of
                      (rc, fs) \<Rightarrow> if rc \<noteq> 0 then (-1, fs) else rename tmp_path path fs)))"

definition ts_write_with_backup :: "string \<Rightarrow> string option \<Rightarrow> file_system \<Rightarrow> int \<times> file_system" where
  "ts_write_with_backup path content fs =
     (case mkdir_parent_recursive path fs of
        (rc, fs) \<Rightarrow>
          if rc \<noteq> 0 then (-1, fs)
          else case access_exists path fs of
            (True, fs) \<Rightarrow>
              (case copy_file path (suffix_path path ''.bak'' PATH_MAX) fs of
                 (rc, fs) \<Rightarrow> if rc \<noteq> 0 then (-1, fs) else ts_atomic_write_text path content fs)
          | (False, fs) \<Rightarrow> ts_atomic_write_text path content fs)"

definition ts_append_json_log :: "string \<Rightarrow> string option \<Rightarrow> file_system \<Rightarrow> int \<times> file_system" where
  "ts_append_json_log path entry_json fs =
     (case mkdir_parent_recursive path fs of
        (rc, fs) \<Rightarrow>
          if rc \<noteq> 0 then (-1, fs)
          else case fopen_ab path fs of
            (None, fs) \<Rightarrow> (-1, fs)
          | (Some fp, fs) \<Rightarrow>
              (case fwrite ((case entry_json of Some e \<Rightarrow> e | None \<Rightarrow> ''{}'') @ [CHR 0x0A]) fp fs of
                 (_, fp, fs) \<Rightarrow> fclose fp fs))"

section \<open>Reading a text\<close>

text \<open>\<open>ts_read_file_text\<close> of \<open>util.c\<close>: \<open>fseek\<close> and \<open>ftell\<close> may fail like the other calls; the caller uses the
  buffer as a C string, so the result is the text before the first terminator. Memory for it is
  there.\<close>

definition ts_read_file_text :: "string \<Rightarrow> file_system \<Rightarrow> string option \<times> file_system" where
  "ts_read_file_text path fs =
     (case fopen_rb path fs of
        (None, fs) \<Rightarrow> (Some (ts_strdup (Some [])), fs)
      | (Some input, fs) \<Rightarrow>
          (case io_call fs of
             (Fails _, fs) \<Rightarrow> (Some (ts_strdup (Some [])), fs)
           | (_, fs) \<Rightarrow>
               (case io_call fs of
                  (Fails _, fs) \<Rightarrow> (Some (ts_strdup (Some [])), fs)
                | (_, fs) \<Rightarrow>
                    (case fread (length input) input fs of
                       (buffer, _, fs) \<Rightarrow> (Some (c_string_of buffer), fs)))))"

end
