(* ===== verification/Autosave.thy ===== *)
theory Autosave
  imports Files Transport
begin

text \<open>
  The save process of \<open>autosave.c\<close>: the events the server writes into the pipe, and the child that
  reads them, keeps the latest snapshot, saves on demand and on a timer, and appends to the log.
  Reads and writes of the pipe are the lists of results of theory \<open>Transport\<close>, the files are the
  store of theory \<open>Files\<close>; the clock, \<open>select\<close>, \<open>pipe\<close> and \<open>fork\<close> are arguments.
\<close>

section \<open>Sending an event\<close>

text \<open>\<open>header_len\<close> is the length before truncation, so a header of 128 bytes or more would be written
  from behind its buffer.\<close>

definition send_framed :: "string \<Rightarrow> string \<Rightarrow> write_result list \<Rightarrow> (int option \<times> string \<times> write_result list) ub" where
  \<comment> \<open>the common end of both senders: the header, then the payload, in two calls\<close>
  "send_framed header payload results =
     (if length header \<ge> 128 then None
      else Some (case ts_write_all_fd header results of
        (rc, out, results) \<Rightarrow>
          if rc = None then (None, out, results)
          else if rc \<noteq> Some 0 then (Some (-1), out, results)
          else (case ts_write_all_fd payload results of
            (rc, out2, results) \<Rightarrow> (rc, out @ out2, results))))"

definition send_payload_event ::
  "string \<Rightarrow> string option \<Rightarrow> int \<Rightarrow> write_result list \<Rightarrow> (int option \<times> string \<times> write_result list) ub" where
  "send_payload_event name content version results =
     (let payload = (case content of Some c \<Rightarrow> c | None \<Rightarrow> []);
          header = name @ '' '' @ show_int version @ '' '' @ show_nat (length payload) @ [CHR 0x0A] in
      send_framed header payload results)"

definition ts_autosave_send_snapshot ::
  "string option \<Rightarrow> int \<Rightarrow> write_result list \<Rightarrow> (int option \<times> string \<times> write_result list) ub" where
  "ts_autosave_send_snapshot content version results = send_payload_event ''SNAPSHOT'' content version results"

definition ts_autosave_send_save_now ::
  "string option \<Rightarrow> int \<Rightarrow> write_result list \<Rightarrow> (int option \<times> string \<times> write_result list) ub" where
  "ts_autosave_send_save_now content version results = send_payload_event ''SAVE_NOW'' content version results"

definition ts_autosave_send_log ::
  "string option \<Rightarrow> write_result list \<Rightarrow> (int option \<times> string \<times> write_result list) ub" where
  "ts_autosave_send_log entry_json results =
     (let payload = (case entry_json of Some e \<Rightarrow> e | None \<Rightarrow> ''{}'');
          header = ''LOG 0 '' @ show_nat (length payload) @ [CHR 0x0A] in
      send_framed header payload results)"

definition ts_autosave_send_stop :: "write_result list \<Rightarrow> int option \<times> string \<times> write_result list" where
  "ts_autosave_send_stop results = ts_write_all_fd (''STOP'' @ [CHR 0x0A]) results"

record TsAutosaveProcess =
  ap_pid :: int
  ap_write_fd :: int

text \<open>The result also says what was written and the process that was waited for.\<close>

definition ts_stop_autosave_process ::
  "TsAutosaveProcess option \<Rightarrow> write_result list \<Rightarrow> TsAutosaveProcess option \<times> string \<times> int option" where
  "ts_stop_autosave_process process results =
     (case process of
        None \<Rightarrow> (None, [], None)
      | Some process \<Rightarrow>
          if ap_write_fd process < 0 then (Some process, [], None)
          else (case ts_autosave_send_stop results of
            (_, out, _) \<Rightarrow>
              (let process = process\<lparr>ap_write_fd := -1\<rparr> in
               if ap_pid process > 0 then (Some (process\<lparr>ap_pid := -1\<rparr>), out, Some (ap_pid process))
               else (Some process, out, None))))"

section \<open>Reading an event\<close>

definition rest_of_read :: "string \<Rightarrow> read_result list \<Rightarrow> read_result list" where
  "rest_of_read bytes input = (if bytes = [] then input else ReadData bytes # input)"

text \<open>The result is the return code (null while the child waits for more input), the line and the
  results left.\<close>

function read_line_fd :: "string \<Rightarrow> nat \<Rightarrow> read_result list \<Rightarrow> int option \<times> string \<times> read_result list" where
  "read_line_fd line line_size input =
     (if \<not> length line + 1 < line_size then (Some (-1), line, input)
      else case input of
        [] \<Rightarrow> (None, line, [])
      | ReadInterrupted # input \<Rightarrow> read_line_fd line line_size input
      | ReadFailed _ # input \<Rightarrow> (Some (-1), line, input)
      | ReadData bytes # input \<Rightarrow>
          if bytes = [] then (Some 0, line, input)
          else if hd bytes = CHR 0x0A then (Some 1, line, rest_of_read (tl bytes) input)
          else read_line_fd (line @ [hd bytes]) line_size (rest_of_read (tl bytes) input))"
  by pat_completeness auto
termination
  by (relation "measure (\<lambda>(_, _, input). sum_list (map event_bytes input))")
    (auto simp: event_bytes_def rest_of_read_def)

declare read_line_fd.simps [simp del]

text \<open>\<open>data\<close> is what has been read so far; the inner option is the null pointer.\<close>

function read_exact_loop :: "string \<Rightarrow> nat \<Rightarrow> read_result list \<Rightarrow> string option option \<times> read_result list" where
  "read_exact_loop data len input =
     (if \<not> length data < len then (Some (Some data), input)
      else case input of
        [] \<Rightarrow> (None, [])
      | ReadInterrupted # input \<Rightarrow> read_exact_loop data len input
      | ReadFailed _ # input \<Rightarrow> (Some None, input)
      | ReadData bytes # input \<Rightarrow>
          if bytes = [] then (Some None, input)
          else (let n = len - length data in
            read_exact_loop (data @ take n bytes) len (rest_of_read (drop n bytes) input)))"
  by pat_completeness auto
termination
  by (relation "measure (\<lambda>(_, _, input). sum_list (map event_bytes input))")
    (auto simp: event_bytes_def rest_of_read_def)

declare read_exact_loop.simps [simp del]

definition read_exact_alloc :: "nat \<Rightarrow> read_result list \<Rightarrow> string option option \<times> read_result list" where
  "read_exact_alloc len input = read_exact_loop [] len input"

text \<open>One integer of \<open>sscanf\<close>: white space, a sign, digits.\<close>

definition scan_int :: "string \<Rightarrow> (int \<times> string) option" where
  "scan_int s =
     (let s = skip_ws s;
          neg = (s \<noteq> [] \<and> hd s = CHR ''-'');
          s = (if s \<noteq> [] \<and> (hd s = CHR ''-'' \<or> hd s = CHR ''+'') then tl s else s);
          digits = takeWhile is_digit s in
      if digits = [] then None
      else Some (if neg then - int (digits_value digits) else int (digits_value digits), dropWhile is_digit s))"

text \<open>\<open>sscanf(header, "%31s %d %zu", ...)\<close>: null when it does not convert all three; a number that does
  not fit its type is undefined.\<close>

definition scan_header :: "string \<Rightarrow> (string \<times> int \<times> nat) option ub" where
  "scan_header header =
     (let s = skip_ws header;
          event = take 31 (takeWhile (\<lambda>c. \<not> isspace c) s);
          s = drop (length event) s in
      if event = [] then Some None
      else case scan_int s of
        None \<Rightarrow> Some None
      | Some (version, s) \<Rightarrow>
          if version < -2147483648 \<or> version > c_int_max then None
          else case scan_int s of
            None \<Rightarrow> Some None
          | Some (len, _) \<Rightarrow>
              if len < -18446744073709551615 \<or> len > 18446744073709551615 then None
              else Some (Some (event, version, nat (len mod 18446744073709551616))))"

section \<open>The loop of the child\<close>

record autosave_state =
  as_latest_content :: "string option"
  as_latest_version :: int
  as_next_save :: int

definition autosave_init :: "int \<Rightarrow> int \<Rightarrow> autosave_state" where
  "autosave_init now interval_ms =
     \<lparr>as_latest_content = None, as_latest_version = 0, as_next_save = now + interval_ms\<rparr>"

text \<open>The timeout of \<open>select\<close>: seconds and microseconds.\<close>

definition autosave_timeout :: "autosave_state \<Rightarrow> int \<Rightarrow> int \<times> int" where
  "autosave_timeout st now =
     (let wait_ms = (if as_next_save st > now then as_next_save st - now else 0) in
      (wait_ms div 1000, (wait_ms mod 1000) * 1000))"

definition autosave_path :: "string \<Rightarrow> string" where
  "autosave_path document_path = suffix_path document_path ''.autosave'' PATH_MAX"

definition save_log_entry :: "string \<Rightarrow> int \<Rightarrow> string \<Rightarrow> string" where
  \<comment> \<open>the entries for a manual save and for an autosave differ in the name of the event\<close>
  \<open>save_log_entry event version path =
     snprintf_buf (PATH_MAX + 160)
       (''{"event":"'' @ event @ ''","version":'' @ show_int version @ '',"path":"'' @ path @ ''"}'')\<close>

text \<open>How the part of an iteration that reads an event ends: the iteration goes on behind it, starts over
  (\<open>continue\<close>), leaves the loop (\<open>break\<close>), or the child waits in a read.\<close>

datatype loop_control = Falls_through | Continues | Breaks | Waits

definition handle_save_event ::
  "string \<Rightarrow> string \<Rightarrow> string \<Rightarrow> int \<Rightarrow> string \<Rightarrow> autosave_state \<Rightarrow> file_system \<Rightarrow> autosave_state \<times> file_system" where
  "handle_save_event document_path log_path event version payload st fs =
     (if event = ''SNAPSHOT'' then
        (st\<lparr>as_latest_content := Some payload, as_latest_version := version\<rparr>, fs)
      else if event = ''SAVE_NOW'' then
        (let st = st\<lparr>as_latest_content := Some (ts_strdup (Some payload)), as_latest_version := version\<rparr>;
             fs = snd (ts_write_with_backup document_path (Some payload) fs);
             entry = save_log_entry ''manual_save'' version document_path in
         (st, snd (ts_append_json_log log_path (Some entry) fs)))
      else if event = ''LOG'' then (st, snd (ts_append_json_log log_path (Some payload) fs))
      else (st, fs))"

definition autosave_read_event ::
  "string \<Rightarrow> string \<Rightarrow> autosave_state \<Rightarrow> read_result list \<Rightarrow> file_system \<Rightarrow>
   (loop_control \<times> autosave_state \<times> read_result list \<times> file_system) ub" where
  "autosave_read_event document_path log_path st input fs =
     (case read_line_fd [] 128 input of
        (None, _, input) \<Rightarrow> Some (Waits, st, input, fs)
      | (Some rc, header, input) \<Rightarrow>
          if rc \<le> 0 then Some (Breaks, st, input, fs)
          else if c_string_of header = ''STOP'' then
            Some (Breaks, st, input,
              case as_latest_content st of
                None \<Rightarrow> fs
              | Some c \<Rightarrow> snd (ts_atomic_write_text (autosave_path document_path) (Some c) fs))
          else do {
            scanned \<leftarrow> scan_header (c_string_of header);
            case scanned of
              None \<Rightarrow> Some (Continues, st, input, fs)
            | Some (event, version, len) \<Rightarrow>
                (case read_exact_alloc len input of
                   (None, input) \<Rightarrow> Some (Waits, st, input, fs)
                 | (Some None, input) \<Rightarrow> Some (Breaks, st, input, fs)
                 | (Some (Some data), input) \<Rightarrow>
                     (case handle_save_event document_path log_path event version (c_string_of data) st fs of
                        (st, fs) \<Rightarrow> Some (Falls_through, st, input, fs)))
          })"

text \<open>The timer at the end of an iteration; \<open>now\<close> is the clock at the test, \<open>later\<close> at the restart.\<close>

definition autosave_timer ::
  "string \<Rightarrow> string \<Rightarrow> int \<Rightarrow> int \<Rightarrow> int \<Rightarrow> autosave_state \<Rightarrow> file_system \<Rightarrow> autosave_state \<times> file_system" where
  "autosave_timer document_path log_path interval_ms now later st fs =
     (if now \<ge> as_next_save st then
        (let fs = (case as_latest_content st of
                     None \<Rightarrow> fs
                   | Some c \<Rightarrow>
                       (let fs = snd (ts_atomic_write_text (autosave_path document_path) (Some c) fs);
                            entry = save_log_entry ''autosave'' (as_latest_version st) (autosave_path document_path)
                        in snd (ts_append_json_log log_path (Some entry) fs)))
         in (st\<lparr>as_next_save := later + interval_ms\<rparr>, fs))
      else (st, fs))"

text \<open>One iteration; \<open>ready\<close> says whether \<open>select\<close> reports input.\<close>

definition autosave_iteration ::
  "string \<Rightarrow> string \<Rightarrow> int \<Rightarrow> bool \<Rightarrow> int \<Rightarrow> int \<Rightarrow> autosave_state \<Rightarrow> read_result list \<Rightarrow> file_system \<Rightarrow>
   (loop_control \<times> autosave_state \<times> read_result list \<times> file_system) ub" where
  "autosave_iteration document_path log_path interval_ms ready now later st input fs = do {
     (control, st, input, fs) \<leftarrow>
       (if ready then autosave_read_event document_path log_path st input fs
        else Some (Falls_through, st, input, fs));
     if control = Falls_through then
       (case autosave_timer document_path log_path interval_ms now later st fs of
          (st, fs) \<Rightarrow> Some (Falls_through, st, input, fs))
     else Some (control, st, input, fs)
   }"

text \<open>The loop. A round is what \<open>select\<close> reports and the two readings of the clock; with no rounds left the
  child is still in its loop. A \<open>continue\<close> and the end of the body both start the next round.\<close>

fun autosave_loop ::
  "string \<Rightarrow> string \<Rightarrow> int \<Rightarrow> (bool \<times> int \<times> int) list \<Rightarrow> autosave_state \<Rightarrow> read_result list \<Rightarrow> file_system \<Rightarrow>
   (loop_control \<times> autosave_state \<times> read_result list \<times> file_system) ub" where
  "autosave_loop document_path log_path interval_ms [] st input fs = Some (Continues, st, input, fs)"
| "autosave_loop document_path log_path interval_ms ((ready, now, later) # rounds) st input fs = do {
     (control, st, input, fs) \<leftarrow>
       autosave_iteration document_path log_path interval_ms ready now later st input fs;
     if control = Breaks \<or> control = Waits then Some (control, st, input, fs)
     else autosave_loop document_path log_path interval_ms rounds st input fs
   }"

section \<open>Starting the process\<close>

datatype fork_result = ForkFails | InChild | InParent int

text \<open>The interval that \<open>ts_start_autosave_process\<close> passes to the child.\<close>

definition autosave_interval :: "int \<Rightarrow> int" where
  "autosave_interval interval_ms = (if interval_ms \<le> 0 then 5000 else interval_ms)"

text \<open>\<open>fds\<close> is the pair of descriptors that \<open>pipe\<close> gives, if it does. The result of the parent: the return
  code, the process and the descriptors it closed; the child does not return (null) but runs its loop.\<close>

definition ts_start_autosave_process ::
  "TsAutosaveProcess \<Rightarrow> (int \<times> int) option \<Rightarrow> fork_result \<Rightarrow> (int \<times> TsAutosaveProcess \<times> int list) option" where
  "ts_start_autosave_process process fds fork =
     (case fds of
        None \<Rightarrow> Some (-1, process, [])
      | Some (read_end, write_end) \<Rightarrow>
          (case fork of
             ForkFails \<Rightarrow> Some (-1, process, [read_end, write_end])
           | InChild \<Rightarrow> None
           | InParent pid \<Rightarrow>
               Some (0, process\<lparr>ap_pid := pid, ap_write_fd := write_end\<rparr>, [read_end])))"

end
