(* ===== verification/Files_Correct.thy ===== *)
theory Files_Correct
  imports Files
begin

text \<open>
  Saving a file: the target is never seen half-written, whatever call fails and wherever the
  process stops; a manual save keeps the previous content in the backup when no call fails, and
  does not notice when the backup could not be written completely.
\<close>

section \<open>What a function may touch\<close>

text \<open>\<open>frame A fs fs'\<close>: on the way from \<open>fs\<close> to \<open>fs'\<close> every state of the store agrees with \<open>fs\<close> on the
  files outside of \<open>A\<close>.\<close>

definition frame :: "string set \<Rightarrow> file_system \<Rightarrow> file_system \<Rightarrow> bool" where
  "frame A fs fs' \<longleftrightarrow> (\<exists>ms. fs_states fs' = ms @ fs_states fs \<and> (\<forall>m \<in> set ms. \<forall>p. p \<notin> A \<longrightarrow> m p = fs_files fs p))"

lemma frame_refl [simp]: "frame A fs fs"
  by (simp add: frame_def)

lemma frame_file: "frame A fs fs' \<Longrightarrow> p \<notin> A \<Longrightarrow> fs_files fs' p = fs_files fs p"
  by (auto simp: frame_def fs_states_def append_eq_Cons_conv Cons_eq_append_conv)

lemma frame_trans:
  assumes "frame A fs fs1" and "frame A fs1 fs2"
  shows "frame A fs fs2"
proof -
  from assms(1) obtain ms where ms: "fs_states fs1 = ms @ fs_states fs" "\<forall>m \<in> set ms. \<forall>p. p \<notin> A \<longrightarrow> m p = fs_files fs p"
    by (auto simp: frame_def)
  from assms(2) obtain ns where ns: "fs_states fs2 = ns @ fs_states fs1" "\<forall>m \<in> set ns. \<forall>p. p \<notin> A \<longrightarrow> m p = fs_files fs1 p"
    by (auto simp: frame_def)
  have "\<forall>m \<in> set (ns @ ms). \<forall>p. p \<notin> A \<longrightarrow> m p = fs_files fs p"
    using ms(2) ns(2) frame_file [OF assms(1)] by auto
  with ms(1) ns(1) show ?thesis by (auto simp: frame_def)
qed

lemma frame_mono: "frame A fs fs' \<Longrightarrow> A \<subseteq> B \<Longrightarrow> frame B fs fs'"
  by (fastforce simp: frame_def)

lemma frame_states:
  assumes "frame A fs fs'" and "fs_past fs = []" and "m \<in> set (fs_states fs')" and "p \<notin> A"
  shows "m p = fs_files fs p"
proof -
  from assms(1) obtain ms where "fs_states fs' = ms @ [fs_files fs]" "\<forall>m \<in> set ms. \<forall>p. p \<notin> A \<longrightarrow> m p = fs_files fs p"
    using assms(2) by (auto simp: frame_def fs_states_def)
  with assms(3,4) show ?thesis by auto
qed

text \<open>A call only takes an outcome off the list.\<close>

lemma io_call_cases:
  obtains r os where "io_call fs = (r, fs\<lparr>fs_outcomes := os\<rparr>)"
proof (cases "fs_outcomes fs")
  case Nil
  then have "io_call fs = (Succeeds, fs\<lparr>fs_outcomes := []\<rparr>)" by (simp add: io_call_def)
  then show thesis by (rule that)
next
  case (Cons r os)
  then have "io_call fs = (r, fs\<lparr>fs_outcomes := os\<rparr>)" by (simp add: io_call_def)
  then show thesis by (rule that)
qed

lemma frame_outcomes [simp]: "frame A (fs\<lparr>fs_outcomes := os\<rparr>) fs' = frame A fs fs'"
  "frame A fs (fs'\<lparr>fs_outcomes := os\<rparr>) = frame A fs fs'" "frame A fs (fs'\<lparr>fs_dirs := ds\<rparr>) = frame A fs fs'"
  by (simp_all add: frame_def fs_states_def)

lemma frame_set_files: "(\<And>p. p \<notin> A \<Longrightarrow> m p = fs_files fs p) \<Longrightarrow> frame A fs (set_files m (fs\<lparr>fs_outcomes := os\<rparr>))"
  by (auto simp: frame_def fs_states_def set_files_def)

lemma frame_add_bytes [simp]: "p \<in> A \<Longrightarrow> frame A fs (add_bytes p bytes (fs\<lparr>fs_outcomes := os\<rparr>))"
  by (auto simp: add_bytes_def intro!: frame_set_files)

lemma frame_fopen_wb: "fopen_wb p fs = (fp, fs') \<Longrightarrow> p \<in> A \<Longrightarrow> frame A fs fs'"
  by (cases rule: io_call_cases [of fs])
    (auto simp: fopen_wb_def split: io_outcome.splits intro!: frame_set_files)

lemma frame_fopen_rb: "fopen_rb p fs = (fp, fs') \<Longrightarrow> frame A fs fs'"
  by (cases rule: io_call_cases [of fs]) (auto simp: fopen_rb_def split: io_outcome.splits)

lemma frame_fopen_ab: "fopen_ab p fs = (fp, fs') \<Longrightarrow> p \<in> A \<Longrightarrow> frame A fs fs'"
  by (cases rule: io_call_cases [of fs]) (auto simp: fopen_ab_def split: io_outcome.splits)

lemma frame_fread: "fread n s fs = (chunk, rest, fs') \<Longrightarrow> frame A fs fs'"
  by (cases rule: io_call_cases [of fs]) (auto simp: fread_def split: io_outcome.splits)

lemma frame_fwrite: "fwrite s fp fs = (ok, fp', fs') \<Longrightarrow> fp_path fp \<in> A \<Longrightarrow> frame A fs fs' \<and> fp_path fp' = fp_path fp"
  by (cases rule: io_call_cases [of fs]) (auto simp: fwrite_def Let_def split: io_outcome.splits)

lemma frame_fclose: "fclose fp fs = (rc, fs') \<Longrightarrow> fp_path fp \<in> A \<Longrightarrow> frame A fs fs'"
  by (cases rule: io_call_cases [of fs]) (auto simp: fclose_def split: io_outcome.splits)

lemma frame_access: "access_exists p fs = (ok, fs') \<Longrightarrow> frame A fs fs'"
  by (cases rule: io_call_cases [of fs]) (auto simp: access_exists_def split: io_outcome.splits)

lemma frame_mkdir: "mkdir_or_exists p fs = (ok, fs') \<Longrightarrow> frame A fs fs'"
  by (cases rule: io_call_cases [of fs]) (auto simp: mkdir_or_exists_def split: io_outcome.splits if_splits)

lemma frame_mkdir_loop: "mkdir_loop front p fs = (rc, fs') \<Longrightarrow> frame A fs fs'"
proof (induction front p fs rule: mkdir_loop.induct)
  case (2 front c p fs)
  then show ?case
    by (auto split: if_splits prod.splits bool.splits dest: frame_mkdir intro: frame_trans)
qed simp

lemma frame_mkdir_parent:
  assumes "mkdir_parent_recursive p fs = (rc, fs')"
  shows "frame A fs fs'"
proof (cases "before_last_slash (snprintf_buf PATH_MAX p)")
  case None
  with assms show ?thesis by (simp add: mkdir_parent_recursive_def)
next
  case (Some copy)
  show ?thesis
  proof (cases "copy = []")
    case True
    with Some assms show ?thesis by (simp add: mkdir_parent_recursive_def)
  next
    case False
    obtain rc1 fs1 where l: "mkdir_loop (take 1 copy) (drop 1 copy) fs = (rc1, fs1)" by fastforce
    obtain ok fs2 where m: "mkdir_or_exists copy fs1 = (ok, fs2)" by fastforce
    from Some False assms l m have "fs' = fs1 \<or> fs' = fs2"
      by (auto simp: mkdir_parent_recursive_def split: if_splits bool.splits)
    with frame_mkdir_loop [OF l] frame_mkdir [OF m] show ?thesis by (blast intro: frame_trans)
  qed
qed

lemma frame_copy_loop:
  "copy_loop s out fs = (rc, out', fs') \<Longrightarrow> fp_path out \<in> A \<Longrightarrow> frame A fs fs' \<and> fp_path out' = fp_path out"
proof (induction s out fs rule: copy_loop.induct)
  case (1 s out fs)
  obtain chunk rest fs1 where r: "fread 8192 s fs = (chunk, rest, fs1)" by (cases "fread 8192 s fs")
  show ?case
  proof (cases "chunk = []")
    case True
    with r "1.prems" frame_fread [OF r] show ?thesis by (simp add: copy_loop.simps [of s])
  next
    case False
    obtain ok out1 fs2 where w: "fwrite chunk out fs1 = (ok, out1, fs2)" by (cases "fwrite chunk out fs1")
    note f = frame_trans [OF frame_fread [OF r]] frame_fwrite [OF w "1.prems"(2)]
    show ?thesis
    proof (cases ok)
      case True
      with r w False "1.prems"(1) have "copy_loop rest out1 fs2 = (rc, out', fs')" by (simp add: copy_loop.simps [of s])
      from "1.IH" [OF r [symmetric] refl False w [symmetric] eqTrueI [OF True] refl this] f(2) "1.prems"(2)
      have "frame A fs2 fs' \<and> fp_path out' = fp_path out1" by simp
      with frame_trans [OF frame_trans [OF frame_fread [OF r] conjunct1 [OF f(2)]], of fs'] f(2)
      show ?thesis by auto
    next
      case no: False
      with r w False "1.prems"(1) f show ?thesis by (auto simp: copy_loop.simps [of s])
    qed
  qed
qed


lemma frame_copy_file:
  assumes "copy_file src dst fs = (rc, fs')" and "dst \<in> A"
  shows "frame A fs fs'"
proof -
  obtain inp fs1 where r: "fopen_rb src fs = (inp, fs1)" by fastforce
  note f1 = frame_fopen_rb [OF r]
  show ?thesis
  proof (cases inp)
    case None
    with assms r f1 show ?thesis by (simp add: copy_file_def)
  next
    case inp: (Some s)
    obtain out fs2 where w: "fopen_wb dst fs1 = (out, fs2)" by fastforce
    note f2 = frame_trans [OF f1 frame_fopen_wb [OF w assms(2)]]
    show ?thesis
    proof (cases out)
      case None
      with assms r inp w f2 show ?thesis by (simp add: copy_file_def)
    next
      case (Some fp)
      have fp: "fp_path fp = dst" using w Some
        by (cases rule: io_call_cases [of fs1]) (auto simp: fopen_wb_def split: io_outcome.splits)
      obtain rc3 fp3 fs3 where l: "copy_loop s fp fs2 = (rc3, fp3, fs3)" by (metis prod_cases3)
      with frame_copy_loop [OF l] fp assms(2) have f3: "frame A fs2 fs3" "fp_path fp3 \<in> A" by auto
      obtain rc4 fs4 where c: "fclose fp3 fs3 = (rc4, fs4)" by fastforce
      from assms(1) r inp w Some l c have "fs' = fs4" by (simp add: copy_file_def split: if_splits)
      with f2 f3 frame_fclose [OF c f3(2)] show ?thesis by (blast intro: frame_trans)
    qed
  qed
qed

section \<open>Writing through a temporary file\<close>

lemma suffix_path_fits: "length path + length ending < PATH_MAX \<Longrightarrow> suffix_path path ending PATH_MAX = path @ ending"
  by (simp add: suffix_path_def)

text \<open>What a completed write leaves in the file: \<open>fopen\<close>, one \<open>fwrite\<close> and \<open>fclose\<close> that all succeed.\<close>

lemma fopen_wb_empty: "fopen_wb p fs = (Some fp, fs') \<Longrightarrow>
    fp = \<lparr>fp_path = p, fp_pending = []\<rparr> \<and> fs_files fs' p = Some []"
  by (cases rule: io_call_cases [of fs]) (auto simp: fopen_wb_def set_files_def split: io_outcome.splits)

lemma fwrite_ok:
  assumes "fwrite s fp fs = (True, fp', fs')" and "fs_files fs (fp_path fp) = Some c"
  shows "fp_path fp' = fp_path fp \<and>
    (\<exists>c'. fs_files fs' (fp_path fp) = Some c' \<and> c' @ fp_pending fp' = c @ fp_pending fp @ s)"
  using assms
  by (cases rule: io_call_cases [of fs])
    (auto simp: fwrite_def Let_def add_bytes_def set_files_def simp del: take_append drop_append
      split: io_outcome.splits)

lemma fclose_ok: "fclose fp fs = (0, fs') \<Longrightarrow> fs_files fs (fp_path fp) = Some c \<Longrightarrow>
    fs_files fs' (fp_path fp) = Some (c @ fp_pending fp)"
  by (cases rule: io_call_cases [of fs])
    (auto simp: fclose_def add_bytes_def set_files_def split: io_outcome.splits)

lemma rename_states:
  assumes "rename old new fs = (rc, fs')" and "old \<noteq> new" and "fs_files fs old = Some c"
  shows "rc = 0 \<and> fs_states fs' = ((fs_files fs)(new \<mapsto> c, old := None)) # fs_states fs \<or>
    rc = -1 \<and> fs_states fs' = fs_states fs"
  using assms
  by (cases rule: io_call_cases [of fs])
    (auto simp: rename_def set_files_def fs_states_def split: io_outcome.splits)

text \<open>All states of the store on the way: a prefix in which only the temporary file changes, then at most
  one more, in which the target has the new content.\<close>

lemma atomic_write_states:
  assumes "ts_atomic_write_text path (Some txt) fs = (rc, fs')" and "length path + 4 < PATH_MAX"
  shows "\<exists>fs1. frame {path @ ''.tmp''} fs fs1 \<and>
    (rc = 0 \<and> fs_states fs' = ((fs_files fs1)(path \<mapsto> txt, path @ ''.tmp'' := None)) # fs_states fs1 \<or>
     rc = -1 \<and> fs_states fs' = fs_states fs1)"
proof -
  let ?tmp = "path @ ''.tmp''"
  have tmp: "suffix_path path ''.tmp'' PATH_MAX = ?tmp" using assms(2) by (simp add: suffix_path_fits)
  obtain rc1 fs1 where m: "mkdir_parent_recursive path fs = (rc1, fs1)" by fastforce
  note f1 = frame_mkdir_parent [OF m, of "{?tmp}"]
  show ?thesis
  proof (cases "rc1 = 0")
    case False
    with assms(1) m f1 show ?thesis by (auto simp: ts_atomic_write_text_def)
  next
    case ok1: True
    obtain fpo fs2 where o: "fopen_wb ?tmp fs1 = (fpo, fs2)" by fastforce
    note f2 = frame_trans [OF f1 frame_fopen_wb [OF o insertI1]]
    show ?thesis
    proof (cases fpo)
      case None
      with assms(1) m ok1 o tmp f2 show ?thesis by (auto simp: ts_atomic_write_text_def)
    next
      case fp: (Some fp)
      from fopen_wb_empty [OF o [unfolded fp]] have p: "fp_path fp = ?tmp" "fp_pending fp = []" "fs_files fs2 ?tmp = Some []" by auto
      obtain ok fp3 fs3 where w: "fwrite txt fp fs2 = (ok, fp3, fs3)" by (metis prod_cases3)
      from frame_fwrite [OF w, of "{?tmp}"] p f2 have f3: "frame {?tmp} fs fs3" "fp_path fp3 = ?tmp"
        by (auto intro: frame_trans)
      obtain rc4 fs4 where c: "fclose fp3 fs3 = (rc4, fs4)" by fastforce
      have f4: "frame {?tmp} fs fs4" using frame_fclose [OF c, of "{?tmp}"] f3 by (auto intro: frame_trans)
      show ?thesis
      proof (cases "ok \<and> rc4 = 0")
        case False
        with assms(1) m ok1 o tmp fp w c have "rc = -1" "fs' = fs4"
          by (auto simp: ts_atomic_write_text_def split: if_splits bool.splits)
        with f4 show ?thesis by auto
      next
        case True
        from w True have "fwrite txt fp fs2 = (True, fp3, fs3)" by simp
        from fwrite_ok [OF this] p obtain c' where
          "fs_files fs3 ?tmp = Some c'" "c' @ fp_pending fp3 = txt" by auto
        with fclose_ok [of fp3 fs3 fs4 c'] c True f3(2) have "fs_files fs4 ?tmp = Some txt" by simp
        moreover have "rename ?tmp path fs4 = (rc, fs')"
          using assms(1) m ok1 o tmp fp w c True by (auto simp: ts_atomic_write_text_def)
        ultimately show ?thesis using rename_states [of ?tmp path fs4 rc fs' "txt"] f4 by auto
      qed
    qed
  qed
qed

text \<open>C14: A file that is written through its temporary file is never seen half-written: whichever calls
  fail and wherever the process stops, the target has its old content or the whole new one, nothing
  but the target and the temporary file changes, and the result says which content it has at the end.\<close>

theorem atomic_write_is_atomic:
  assumes "ts_atomic_write_text path (Some txt) fs = (rc, fs')" and "length path + 4 < PATH_MAX"
    and "fs_past fs = []"
  shows "(\<forall>m \<in> set (fs_states fs'). m path = fs_files fs path \<or> m path = Some txt) \<and>
    (\<forall>m \<in> set (fs_states fs'). \<forall>p. p \<noteq> path \<longrightarrow> p \<noteq> path @ ''.tmp'' \<longrightarrow> m p = fs_files fs p) \<and>
    fs_files fs' path = (if rc = 0 then Some txt else fs_files fs path)"
proof -
  from atomic_write_states [OF assms(1,2)] obtain fs1 where f: "frame {path @ ''.tmp''} fs fs1"
    and s: "rc = 0 \<and> fs_states fs' = ((fs_files fs1)(path \<mapsto> txt, path @ ''.tmp'' := None)) # fs_states fs1 \<or>
     rc = -1 \<and> fs_states fs' = fs_states fs1" by blast
  have old: "m p = fs_files fs p" if "m \<in> set (fs_states fs1)" "p \<noteq> path @ ''.tmp''" for m p
    using frame_states [OF f assms(3)] that by auto
  have now: "fs_files fs1 p = fs_files fs p" if "p \<noteq> path @ ''.tmp''" for p
    using that by (intro old) (simp_all add: fs_states_def)
  from s show ?thesis
  proof
    assume c: "rc = 0 \<and> fs_states fs' = ((fs_files fs1)(path \<mapsto> txt, path @ ''.tmp'' := None)) # fs_states fs1"
    then have "fs_files fs' = (fs_files fs1)(path \<mapsto> txt, path @ ''.tmp'' := None)" by (simp add: fs_states_def)
    with c old now show ?thesis by auto
  next
    assume c: "rc = -1 \<and> fs_states fs' = fs_states fs1"
    then have "fs_files fs' = fs_files fs1" by (simp add: fs_states_def)
    with c old now show ?thesis by auto
  qed
qed

section \<open>When no call fails\<close>

lemma io_call_ok: "fs_outcomes fs = [] \<Longrightarrow> io_call fs = (Succeeds, fs)"
  by (simp add: io_call_def)

lemma set_files_simps [simp]:
  "fs_files (set_files m fs) = m" "fs_outcomes (set_files m fs) = fs_outcomes fs" "fs_dirs (set_files m fs) = fs_dirs fs"
  by (simp_all add: set_files_def)

lemma add_bytes_simps [simp]:
  "fs_files (add_bytes p s fs) = (fs_files fs)(p \<mapsto> (case fs_files fs p of Some c \<Rightarrow> c | None \<Rightarrow> []) @ s)"
  "fs_outcomes (add_bytes p s fs) = fs_outcomes fs" "fs_dirs (add_bytes p s fs) = fs_dirs fs"
  by (simp_all add: add_bytes_def)

lemma mkdir_ok: "fs_outcomes fs = [] \<Longrightarrow> \<exists>ds. mkdir_or_exists p fs = (True, fs\<lparr>fs_dirs := ds\<rparr>)"
proof -
  assume "fs_outcomes fs = []"
  then have "mkdir_or_exists p fs = (True, fs\<lparr>fs_dirs := fs_dirs fs\<rparr>) \<or>
      mkdir_or_exists p fs = (True, fs\<lparr>fs_dirs := p # fs_dirs fs\<rparr>)"
    by (simp add: mkdir_or_exists_def io_call_ok)
  then show ?thesis by blast
qed

lemma mkdir_loop_ok: "fs_outcomes fs = [] \<Longrightarrow> \<exists>ds. mkdir_loop front p fs = (0, fs\<lparr>fs_dirs := ds\<rparr>)"
proof (induction front p fs rule: mkdir_loop.induct)
  case (1 front fs)
  have "mkdir_loop front [] fs = (0, fs\<lparr>fs_dirs := fs_dirs fs\<rparr>)" by simp
  then show ?case by blast
next
  case (2 front c p fs)
  from mkdir_ok [OF "2.prems", of front] obtain ds where "mkdir_or_exists front fs = (True, fs\<lparr>fs_dirs := ds\<rparr>)" by blast
  with "2.IH" "2.prems" show ?case by (cases "c = CHR 0x2F") fastforce+
qed

lemma mkdir_parent_ok:
  assumes "fs_outcomes fs = []"
  shows "\<exists>ds. mkdir_parent_recursive p fs = (0, fs\<lparr>fs_dirs := ds\<rparr>)"
proof (cases "before_last_slash (snprintf_buf PATH_MAX p)")
  case None
  then have "mkdir_parent_recursive p fs = (0, fs\<lparr>fs_dirs := fs_dirs fs\<rparr>)" by (simp add: mkdir_parent_recursive_def)
  then show ?thesis by blast
next
  case (Some copy)
  from mkdir_loop_ok [OF assms] obtain ds where l: "mkdir_loop (take 1 copy) (drop 1 copy) fs = (0, fs\<lparr>fs_dirs := ds\<rparr>)" by blast
  from mkdir_ok [of "fs\<lparr>fs_dirs := ds\<rparr>" copy] assms obtain es where
    m: "mkdir_or_exists copy (fs\<lparr>fs_dirs := ds\<rparr>) = (True, fs\<lparr>fs_dirs := es\<rparr>)" by auto
  show ?thesis
  proof (cases "copy = []")
    case True
    with Some have "mkdir_parent_recursive p fs = (0, fs\<lparr>fs_dirs := fs_dirs fs\<rparr>)" by (simp add: mkdir_parent_recursive_def)
    then show ?thesis by blast
  next
    case False
    with Some l m have "mkdir_parent_recursive p fs = (0, fs\<lparr>fs_dirs := es\<rparr>)" by (simp add: mkdir_parent_recursive_def)
    then show ?thesis by blast
  qed
qed

lemma copy_loop_ok:
  "fs_outcomes fs = [] \<Longrightarrow> fs_files fs (fp_path out) = Some d \<Longrightarrow> fp_pending out = [] \<Longrightarrow>
    \<exists>fs'. copy_loop s out fs = (0, out, fs') \<and> fs_files fs' = (fs_files fs)(fp_path out \<mapsto> d @ s) \<and> fs_outcomes fs' = []"
proof (induction "length s" arbitrary: s fs d rule: less_induct)
  case less
  have r: "fread 8192 s fs = (take 8192 s, drop 8192 s, fs)" using less.prems by (simp add: fread_def io_call_ok)
  show ?case
  proof (cases "s = []")
    case True
    with r less.prems show ?thesis by (simp add: copy_loop.simps fun_upd_idem)
  next
    case False
    let ?fs = "add_bytes (fp_path out) (take 8192 s) fs"
    have w: "fwrite (take 8192 s) out fs = (True, out, ?fs)"
      using less.prems by (simp add: fwrite_def io_call_ok)
    have "length (drop 8192 s) < length s" using False by (cases s) simp_all
    from less.hyps [OF this, of ?fs "d @ take 8192 s"] less.prems obtain fs' where
      "copy_loop (drop 8192 s) out ?fs = (0, out, fs')" "fs_files fs' = (fs_files fs)(fp_path out \<mapsto> d @ s)" "fs_outcomes fs' = []"
      by auto
    with r w False show ?thesis by (simp add: copy_loop.simps [of s])
  qed
qed

lemma copy_file_ok:
  assumes "fs_outcomes fs = []" and "fs_files fs src = Some c" and "src \<noteq> dst"
  shows "\<exists>fs'. copy_file src dst fs = (0, fs') \<and> fs_files fs' = (fs_files fs)(dst \<mapsto> c) \<and> fs_outcomes fs' = []"
proof -
  let ?fs = "set_files ((fs_files fs)(dst \<mapsto> [])) fs" and ?fp = "\<lparr>fp_path = dst, fp_pending = []\<rparr>"
  from copy_loop_ok [of ?fs ?fp "[]" c] assms(1) obtain fs' where
    l: "copy_loop c ?fp ?fs = (0, ?fp, fs')" "fs_files fs' = (fs_files fs)(dst \<mapsto> c)" "fs_outcomes fs' = []" by auto
  with assms show ?thesis
    by (simp add: copy_file_def fopen_rb_def fopen_wb_def fclose_def io_call_ok fun_upd_idem)
qed

lemma atomic_write_ok:
  assumes "fs_outcomes fs = []" and "length path + 4 < PATH_MAX"
  shows "\<exists>fs'. ts_atomic_write_text path (Some t) fs = (0, fs') \<and> fs_outcomes fs' = [] \<and>
    fs_files fs' = (fs_files fs)(path \<mapsto> t, path @ ''.tmp'' := None)"
proof -
  from mkdir_parent_ok [OF assms(1)] obtain ds where "mkdir_parent_recursive path fs = (0, fs\<lparr>fs_dirs := ds\<rparr>)" by blast
  with assms show ?thesis
    by (simp add: ts_atomic_write_text_def suffix_path_fits fopen_wb_def fwrite_def fclose_def rename_def io_call_ok
        Let_def fun_upd_twist)
qed

lemma append_log_ok:
  assumes "fs_outcomes fs = []"
  shows "\<exists>fs'. ts_append_json_log path (Some e) fs = (0, fs') \<and> fs_outcomes fs' = [] \<and>
    fs_files fs' = (fs_files fs)(path \<mapsto> (case fs_files fs path of Some c \<Rightarrow> c | None \<Rightarrow> []) @ e @ [CHR 0x0A])"
proof -
  from mkdir_parent_ok [OF assms(1)] obtain ds where "mkdir_parent_recursive path fs = (0, fs\<lparr>fs_dirs := ds\<rparr>)" by blast
  with assms show ?thesis
    by (simp add: ts_append_json_log_def fopen_ab_def fwrite_def fclose_def io_call_ok)
qed

lemma read_text_ok:
  "fs_outcomes fs = [] \<Longrightarrow>
    ts_read_file_text path fs = (Some (case fs_files fs path of None \<Rightarrow> [] | Some t \<Rightarrow> c_string_of t), fs)"
  by (auto simp: ts_read_file_text_def fopen_rb_def fread_def io_call_ok split: option.splits)

section \<open>Saving with a backup\<close>

lemma backup_states:
  assumes "ts_write_with_backup path (Some txt) fs = (rc, fs')" and "length path + 4 < PATH_MAX"
  shows "\<exists>fs1. frame {path @ ''.tmp'', path @ ''.bak''} fs fs1 \<and>
    (rc = 0 \<and> fs_states fs' = ((fs_files fs1)(path \<mapsto> txt, path @ ''.tmp'' := None)) # fs_states fs1 \<or>
     rc = -1 \<and> fs_states fs' = fs_states fs1)"
proof -
  let ?A = "{path @ ''.tmp'', path @ ''.bak''}"
  have bak: "suffix_path path ''.bak'' PATH_MAX = path @ ''.bak''" using assms(2) by (simp add: suffix_path_fits)
  obtain rc1 fs1 where m: "mkdir_parent_recursive path fs = (rc1, fs1)" by fastforce
  obtain ok fs2 where a: "access_exists path fs1 = (ok, fs2)" by fastforce
  note f2 = frame_trans [OF frame_mkdir_parent [OF m] frame_access [OF a], of ?A]
  have finish: ?thesis if "ts_atomic_write_text path (Some txt) fs3 = (rc, fs')" "frame ?A fs fs3" for fs3
    using atomic_write_states [OF that(1) assms(2)] that(2) frame_mono [of "{path @ ''.tmp''}" fs3 _ ?A]
    by (blast intro: frame_trans)
  show ?thesis
  proof (cases "rc1 = 0")
    case False
    with assms(1) m frame_mkdir_parent [OF m, of ?A] show ?thesis by (auto simp: ts_write_with_backup_def)
  next
    case True
    show ?thesis
    proof (cases ok)
      case False
      with assms(1) m True a f2 finish show ?thesis by (simp add: ts_write_with_backup_def)
    next
      case ok: True
      obtain rc3 fs3 where c: "copy_file path (path @ ''.bak'') fs2 = (rc3, fs3)" by fastforce
      have f3: "frame ?A fs fs3" using frame_trans [OF f2 frame_copy_file [OF c]] by simp
      show ?thesis
      proof (cases "rc3 = 0")
        case False
        with assms(1) m True a ok bak c f3 show ?thesis by (auto simp: ts_write_with_backup_def)
      next
        case ok3: True
        with assms(1) m True a ok bak c f3 finish show ?thesis by (simp add: ts_write_with_backup_def)
      qed
    qed
  qed
qed

lemma backup_ok:
  assumes "fs_outcomes fs = []" and "length path + 4 < PATH_MAX"
  shows "\<exists>fs'. ts_write_with_backup path (Some t) fs = (0, fs') \<and> fs_outcomes fs' = [] \<and>
    fs_files fs' = (case fs_files fs path of
       None \<Rightarrow> fs_files fs | Some c \<Rightarrow> (fs_files fs)(path @ ''.bak'' \<mapsto> c))(path \<mapsto> t, path @ ''.tmp'' := None)"
proof -
  from mkdir_parent_ok [OF assms(1)] obtain ds where m: "mkdir_parent_recursive path fs = (0, fs\<lparr>fs_dirs := ds\<rparr>)" by blast
  let ?fs = "fs\<lparr>fs_dirs := ds\<rparr>"
  have a: "access_exists path ?fs = (fs_files fs path \<noteq> None, ?fs)" using assms(1) by (simp add: access_exists_def io_call_ok)
  show ?thesis
  proof (cases "fs_files fs path")
    case None
    with m a assms atomic_write_ok [of ?fs path t] show ?thesis by (auto simp: ts_write_with_backup_def)
  next
    case (Some c)
    from copy_file_ok [of ?fs path c "path @ ''.bak''"] Some assms(1) obtain fs2 where c:
      "copy_file path (path @ ''.bak'') ?fs = (0, fs2)" "fs_files fs2 = (fs_files fs)(path @ ''.bak'' \<mapsto> c)" "fs_outcomes fs2 = []"
      by auto
    from atomic_write_ok [OF c(3) assms(2), of t] m a Some c assms(2) show ?thesis
      by (auto simp: ts_write_with_backup_def suffix_path_fits)
  qed
qed

text \<open>C30: A manual save replaces the file at once or not at all, whatever fails; and when no call fails it
  succeeds and the previous content is in the backup.\<close>

theorem manual_save_keeps_backup:
  assumes "ts_write_with_backup path (Some txt) fs = (rc, fs')" and "length path + 4 < PATH_MAX"
    and "fs_past fs = []"
  shows "(\<forall>m \<in> set (fs_states fs'). m path = fs_files fs path \<or> m path = Some txt) \<and>
    fs_files fs' path = (if rc = 0 then Some txt else fs_files fs path) \<and>
    (fs_outcomes fs = [] \<longrightarrow> rc = 0 \<and>
      (\<forall>c. fs_files fs path = Some c \<longrightarrow> fs_files fs' (path @ ''.bak'') = Some c))"
proof -
  from backup_states [OF assms(1,2)] obtain fs1 where f: "frame {path @ ''.tmp'', path @ ''.bak''} fs fs1"
    and s: "rc = 0 \<and> fs_states fs' = ((fs_files fs1)(path \<mapsto> txt, path @ ''.tmp'' := None)) # fs_states fs1 \<or>
     rc = -1 \<and> fs_states fs' = fs_states fs1" by blast
  have old: "m path = fs_files fs path" if "m \<in> set (fs_states fs1)" for m
    using frame_states [OF f assms(3) that] by auto
  then have now: "fs_files fs1 path = fs_files fs path" by (simp add: fs_states_def)
  have "fs_outcomes fs = [] \<longrightarrow> rc = 0 \<and>
      (\<forall>c. fs_files fs path = Some c \<longrightarrow> fs_files fs' (path @ ''.bak'') = Some c)"
    using backup_ok [of fs path "txt"] assms(1,2) by auto
  moreover from s have "(\<forall>m \<in> set (fs_states fs'). m path = fs_files fs path \<or> m path = Some txt) \<and>
    fs_files fs' path = (if rc = 0 then Some txt else fs_files fs path)"
  proof
    assume c: "rc = 0 \<and> fs_states fs' = ((fs_files fs1)(path \<mapsto> txt, path @ ''.tmp'' := None)) # fs_states fs1"
    then have "fs_files fs' path = Some txt" by (simp add: fs_states_def)
    with c old show ?thesis by auto
  next
    assume c: "rc = -1 \<and> fs_states fs' = fs_states fs1"
    then have "fs_files fs' = fs_files fs1" by (simp add: fs_states_def)
    with c old now show ?thesis by auto
  qed
  ultimately show ?thesis by blast
qed

text \<open>The copy behind a backup ignores the result of \<open>fclose\<close>: when the bytes that the stream held
  back cannot be written, it reports success and the backup is empty.\<close>

lemma unnoticed_short_backup:
  assumes "fs_files fs src = Some c" and "c \<noteq> []" and "length c \<le> 8192" and "src \<noteq> dst"
    and "fs_outcomes fs = [Succeeds, Succeeds, Succeeds, Buffers 0, Succeeds, Fails 0]"
  shows "\<exists>fs'. copy_file src dst fs = (0, fs') \<and> fs_files fs' dst = Some []"
  using assms
  by (simp add: copy_file_def fopen_rb_def fopen_wb_def fclose_def io_call_def copy_loop.simps fread_def fwrite_def)

section \<open>A concrete store\<close>

definition example_store :: "io_outcome list \<Rightarrow> file_system" where
  "example_store outcomes = \<lparr>fs_files = [''d'' \<mapsto> ''old''], fs_dirs = [], fs_outcomes = outcomes, fs_past = []\<rparr>"

lemma example_store_simps [simp]:
  "fs_files (example_store os) = [''d'' \<mapsto> ''old'']" "fs_outcomes (example_store os) = os" "fs_past (example_store os) = []"
  by (simp_all add: example_store_def)

theorem atomic_write_is_atomic_witness:
  "\<exists>fs'. ts_atomic_write_text ''d'' (Some ''new'') (example_store [Succeeds, Buffers 2, Fails 0]) = (-1, fs') \<and>
    fs_files fs' ''d.tmp'' = Some ''ne'' \<and> fs_files fs' ''d'' = Some ''old''"
proof -
  have m: "mkdir_parent_recursive ''d'' (example_store [Succeeds, Buffers 2, Fails 0]) =
      (0, example_store [Succeeds, Buffers 2, Fails 0])"
    by (simp add: mkdir_parent_recursive_def before_last_slash_def PATH_MAX_def)
  obtain fs' where w: "ts_atomic_write_text ''d'' (Some ''new'') (example_store [Succeeds, Buffers 2, Fails 0]) = (-1, fs')"
    "fs_files fs' ''d.tmp'' = Some ''ne''"
    by (simp add: ts_atomic_write_text_def m Let_def suffix_path_def PATH_MAX_def fopen_wb_def fwrite_def fclose_def io_call_def)
  from atomic_write_is_atomic [OF w(1)] have "fs_files fs' ''d'' = Some ''old''" by (simp add: PATH_MAX_def)
  with w show ?thesis by blast
qed

theorem manual_save_keeps_backup_witness:
  "\<exists>fs'. ts_write_with_backup ''d'' (Some ''new'') (example_store []) = (0, fs') \<and>
    fs_files fs' ''d'' = Some ''new'' \<and> fs_files fs' ''d.bak'' = Some ''old''"
proof -
  obtain rc fs' where w: "ts_write_with_backup ''d'' (Some ''new'') (example_store []) = (rc, fs')" by fastforce
  from manual_save_keeps_backup [OF w] w show ?thesis by (auto simp: PATH_MAX_def)
qed

end
