(* ===== verification/Autosave_Correct.thy ===== *)
theory Autosave_Correct
  imports Autosave Files_Correct Transport_Correct Server_Correct
begin

text \<open>
  The save process: events cross the pipe whole when one thread writes them, a save request ends
  with the server's text on the disk, the document file is never seen half-written, and two
  threads that write at once make the child store bytes that no client ever typed.
\<close>

section \<open>Reading what was written\<close>

lemma rest_of_read_simps [simp]:
  "input_bytes (rest_of_read bytes input) = bytes @ input_bytes input"
  "only_data input \<Longrightarrow> only_data (rest_of_read bytes input)"
  by (simp_all add: rest_of_read_def)

lemma read_line_crosses:
  assumes "input_bytes input = line @ CHR 0x0A # rest" and "CHR 0x0A \<notin> set line"
    and "length front + length line + 1 < size1" and "only_data input"
  shows "\<exists>input'. read_line_fd front size1 input = (Some 1, front @ line, input') \<and>
    input_bytes input' = rest \<and> only_data input'"
  using assms
proof (induction front size1 input arbitrary: line rule: read_line_fd.induct)
  case (1 front size1 input)
  then have room: "\<not> \<not> length front + 1 < size1" by simp
  show ?case
  proof (cases input)
    case Nil
    with "1.prems"(1) show ?thesis by simp
  next
    case (Cons r more)
    show ?thesis
    proof (cases r)
      case ReadInterrupted
      with Cons "1.prems" "1.IH"(2) [OF room Cons ReadInterrupted, of line] room show ?thesis
        by (simp add: read_line_fd.simps [of front])
    next
      case (ReadFailed e)
      with Cons "1.prems"(4) show ?thesis by simp
    next
      case (ReadData bytes)
      with Cons "1.prems"(1,4) obtain c bs where b: "bytes = c # bs" "only_data more"
        "c # bs @ input_bytes more = line @ CHR 0x0A # rest" by (cases bytes) auto
      show ?thesis
      proof (cases line)
        case Nil
        with b room Cons ReadData show ?thesis by (auto simp: read_line_fd.simps [of front])
      next
        case (Cons d ds)
        with b "1.prems"(2) have c: "c = d" "c \<noteq> CHR 0x0A" "input_bytes (rest_of_read bs more) = ds @ CHR 0x0A # rest"
          by auto
        have "hd bytes \<noteq> CHR 0x0A" "bytes \<noteq> []" using b c by auto
        from "1.IH"(1) [OF room \<open>input = r # more\<close> ReadData this(2,1), of ds] b c "1.prems"(2,3) Cons
        show ?thesis using \<open>input = r # more\<close> ReadData room by (simp add: read_line_fd.simps [of front])
      qed
    qed
  qed
qed

lemma read_exact_crosses:
  assumes "input_bytes input = p @ rest" and "length data + length p = len" and "only_data input"
  shows "\<exists>input'. read_exact_loop data len input = (Some (Some (data @ p)), input') \<and>
    input_bytes input' = rest \<and> only_data input'"
  using assms
proof (induction data len input arbitrary: p rule: read_exact_loop.induct)
  case (1 data len input)
  show ?case
  proof (cases "length data < len")
    case False
    with "1.prems"(2) have "p = []" by (cases p) auto
    with False "1.prems" show ?thesis by (simp add: read_exact_loop.simps [of data])
  next
    case True
    then have room: "\<not> \<not> length data < len" by simp
    show ?thesis
    proof (cases input)
      case Nil
      with True "1.prems"(1,2) show ?thesis by simp
    next
      case (Cons r more)
      show ?thesis
      proof (cases r)
        case ReadInterrupted
        with Cons "1.prems" "1.IH"(2) [OF room Cons ReadInterrupted, of p] room show ?thesis
          by (simp add: read_exact_loop.simps [of data])
      next
        case (ReadFailed e)
        with Cons "1.prems"(3) show ?thesis by simp
      next
        case (ReadData bytes)
        let ?n = "len - length data"
        have n: "?n = length p" using "1.prems"(2) by simp
        from Cons ReadData "1.prems"(1,3) have b: "bytes \<noteq> []" "only_data more" "bytes @ input_bytes more = p @ rest" by auto
        have p: "p = take ?n bytes @ take (?n - length bytes) (input_bytes more)"
          "drop ?n bytes @ drop (?n - length bytes) (input_bytes more) = rest"
          using arg_cong [OF b(3), of "take ?n"] arg_cong [OF b(3), of "drop ?n"] n by simp_all
        have "input_bytes (rest_of_read (drop ?n bytes) more) = take (?n - length bytes) (input_bytes more) @ rest"
        proof (cases "length bytes \<le> ?n")
          case True
          with p(2) have "drop (?n - length bytes) (input_bytes more) = rest" by simp
          with True show ?thesis by (simp add: rest_of_read_simps) (metis append_take_drop_id)
        next
          case False
          with p(2) show ?thesis by simp
        qed
        moreover have "length (data @ take ?n bytes) + length (take (?n - length bytes) (input_bytes more)) = len"
          using arg_cong [OF p(1), of length] n "1.prems"(2) by simp
        ultimately show ?thesis
          using "1.IH"(1) [OF room Cons ReadData b(1) refl, of "take (?n - length bytes) (input_bytes more)"] b
            Cons ReadData True p(1) by (simp add: read_exact_loop.simps [of data] Let_def)
      qed
    qed
  qed
qed


section \<open>Events\<close>

type_synonym save_event = "string \<times> int \<times> string"

definition event_header :: "save_event \<Rightarrow> string" where
  "event_header e = (case e of (name, version, payload) \<Rightarrow>
     name @ '' '' @ show_int version @ '' '' @ show_nat (length payload))"

definition event_frame :: "save_event \<Rightarrow> string" where
  "event_frame e = event_header e @ CHR 0x0A # snd (snd e)"

definition event_name :: "string \<Rightarrow> bool" where
  "event_name name \<longleftrightarrow> name \<noteq> [] \<and> length name \<le> 31 \<and> list_all (\<lambda>c. \<not> isspace c \<and> c \<noteq> CHR 0x00) name"

definition good_save_event :: "save_event \<Rightarrow> bool" where
  "good_save_event e = (case e of (name, version, payload) \<Rightarrow>
     event_name name \<and> 0 \<le> version \<and> version \<le> c_int_max \<and> is_cstr payload \<and>
     length payload < 18446744073709551616)"

lemma event_name_simps [simp]: "event_name ''SNAPSHOT''" "event_name ''SAVE_NOW''" "event_name ''LOG''"
  by (simp_all add: event_name_def isspace_def)

lemma not_space_newline: "list_all (\<lambda>c. \<not> isspace c \<and> c \<noteq> CHR 0x00) s \<Longrightarrow> CHR 0x0A \<notin> set s \<and> is_cstr s"
proof -
  assume "list_all (\<lambda>c. \<not> isspace c \<and> c \<noteq> CHR 0x00) s"
  then have "\<forall>c \<in> set s. \<not> isspace c \<and> c \<noteq> CHR 0x00" by (simp add: list_all_iff)
  moreover have "isspace CHR 0x0A" by (simp add: isspace_def)
  ultimately show ?thesis by (auto simp: is_cstr_def)
qed

lemma skip_ws_digits: "skip_ws (show_nat n @ r) = show_nat n @ r"
proof -
  obtain d ds where "show_nat n = d # ds" "is_digit d" by (rule show_nat_Cons)
  then show ?thesis by (simp add: digit_no_space)
qed

lemma scan_int_show_nat:
  assumes "r = [] \<or> \<not> is_digit (hd r)"
  shows "scan_int (CHR '' '' # show_nat n @ r) = Some (int n, r)"
proof -
  obtain d ds where d: "show_nat n = d # ds" "is_digit d" by (rule show_nat_Cons)
  then have h: "hd (show_nat n @ r) \<noteq> CHR ''-''" "hd (show_nat n @ r) \<noteq> CHR ''+''" "show_nat n @ r \<noteq> []"
    by (simp_all add: digit_no_space)
  have "takeWhile is_digit (show_nat n @ r) = show_nat n \<and> dropWhile is_digit (show_nat n @ r) = r"
    using assms show_nat_digits [of n] by (cases r) (auto simp: takeWhile_append2 dropWhile_append2)
  moreover have "skip_ws (CHR '' '' # show_nat n @ r) = show_nat n @ r"
    by (simp add: isspace_def skip_ws_digits)
  ultimately show ?thesis using h by (simp add: scan_int_def Let_def)
qed

lemma length_payload_digits: "length p < 18446744073709551616 \<Longrightarrow> length (show_nat (length p)) \<le> 20"
  by (rule length_show_nat) simp_all

lemma header_facts:
  assumes "good_save_event e"
  shows "CHR 0x0A \<notin> set (event_header e)" "is_cstr (event_header e)" "length (event_header e) + 1 < 128"
    "scan_header (event_header e) = Some (Some (fst e, fst (snd e), length (snd (snd e))))"
proof -
  obtain name v p where e: "e = (name, v, p)" by (metis prod_cases3)
  from assms e have n: "event_name name" and v: "0 \<le> v" "v \<le> c_int_max" and len: "length p < 18446744073709551616"
    by (auto simp: good_save_event_def)
  from n have ns: "list_all (\<lambda>c. \<not> isspace c \<and> c \<noteq> CHR 0x00) name" "length name \<le> 31" "name \<noteq> []"
    by (auto simp: event_name_def)
  have sv: "show_int v = show_nat (nat v)" using v(1) by (simp add: show_int_def)
  have dig: "CHR 0x0A \<notin> set (show_nat k)" for k using show_nat_digits [of k] by (auto simp: is_digit_def)
  show "CHR 0x0A \<notin> set (event_header e)" "is_cstr (event_header e)"
    using not_space_newline [OF ns(1)] dig by (simp_all add: event_header_def e sv)
  show "length (event_header e) + 1 < 128"
    using ns(2) length_show_int [OF v] length_payload_digits [OF len] by (simp add: event_header_def e)
  let ?rest = "CHR '' '' # show_nat (nat v) @ CHR '' '' # show_nat (length p)"
  have h: "event_header (name, v, p) = name @ ?rest" by (simp add: event_header_def sv)
  have "skip_ws (name @ ?rest) = name @ ?rest" using ns by (cases name) auto
  moreover have "takeWhile (\<lambda>c. \<not> isspace c) (name @ ?rest) = name"
    using ns(1) by (auto simp: takeWhile_append2 list_all_iff isspace_def)
  moreover have "scan_int ?rest = Some (v, CHR '' '' # show_nat (length p))"
    using scan_int_show_nat [of "CHR '' '' # show_nat (length p)" "nat v"] v(1) by (simp add: is_digit_def)
  moreover have "scan_int (CHR '' '' # show_nat (length p)) = Some (int (length p), [])"
    using scan_int_show_nat [of "[]" "length p"] by simp
  ultimately show "scan_header (event_header e) = Some (Some (fst e, fst (snd e), length (snd (snd e))))"
    using ns v len by (simp add: scan_header_def h Let_def e c_int_max_def)
qed

text \<open>The child reads one event; null when it waits or gives up.\<close>

definition read_event_step :: "read_result list \<Rightarrow> (save_event \<times> read_result list) option" where
  "read_event_step input =
     (case read_line_fd [] 128 input of
        (Some rc, header, input) \<Rightarrow>
          (case scan_header (c_string_of header) of
             Some (Some (name, version, len)) \<Rightarrow>
               (case read_exact_alloc len input of
                  (Some (Some data), input) \<Rightarrow> Some ((name, version, c_string_of data), input)
                | _ \<Rightarrow> None)
           | _ \<Rightarrow> None)
      | _ \<Rightarrow> None)"

lemma event_crosses:
  assumes "good_save_event e" and "only_data input" and "input_bytes input = event_frame e @ rest"
  obtains input1 input2 where "read_line_fd [] 128 input = (Some 1, event_header e, input1)"
    and "read_exact_alloc (length (snd (snd e))) input1 = (Some (Some (snd (snd e))), input2)"
    and "input_bytes input2 = rest" and "only_data input2"
proof -
  note h = header_facts [OF assms(1)]
  from read_line_crosses [of input "event_header e" "snd (snd e) @ rest" "[]" 128] assms(2,3) h obtain i1 where
    i1: "read_line_fd [] 128 input = (Some 1, event_header e, i1)" "input_bytes i1 = snd (snd e) @ rest" "only_data i1"
    by (auto simp: event_frame_def)
  from read_exact_crosses [OF i1(2), of "[]" "length (snd (snd e))"] i1(3) obtain i2 where
    "read_exact_alloc (length (snd (snd e))) i1 = (Some (Some (snd (snd e))), i2)" "input_bytes i2 = rest" "only_data i2"
    by (auto simp: read_exact_alloc_def)
  with i1(1) show ?thesis by (rule that)
qed

interpretation pipe: framed_link event_frame good_save_event id input_bytes only_data read_event_step
proof unfold_locales
  fix e rest input
  assume e: "good_save_event e" and live: "only_data input" and str: "input_bytes input = event_frame e @ rest"
  from event_crosses [OF e live str] obtain i1 i2 where
    i: "read_line_fd [] 128 input = (Some 1, event_header e, i1)"
      "read_exact_alloc (length (snd (snd e))) i1 = (Some (Some (snd (snd e))), i2)"
      "input_bytes i2 = rest" "only_data i2" .
  have "is_cstr (snd (snd e))" using e by (auto simp: good_save_event_def)
  with i header_facts [OF e] show "\<exists>s'. read_event_step input = Some (id e, s') \<and> input_bytes s' = rest \<and> only_data s'"
    by (simp add: read_event_step_def c_string_of_id)
qed

section \<open>Writing events\<close>

lemma send_framed_out:
  assumes "send_framed header payload ws = Some (Some 0, out, left)"
  shows "out = header @ payload"
proof -
  obtain rc1 out1 ws1 where a: "ts_write_all_fd header ws = (rc1, out1, ws1)" by (metis prod_cases3)
  obtain rc2 out2 ws2 where b: "ts_write_all_fd payload ws1 = (rc2, out2, ws2)" by (metis prod_cases3)
  from assms a b have "rc1 = Some 0" "rc2 = Some 0" "out = out1 @ out2" by (auto simp: send_framed_def split: if_splits)
  with write_all_fd_prefix [OF a] write_all_fd_prefix [OF b] show ?thesis by simp
qed

lemma send_event_out:
  "send_payload_event name (Some payload) version ws = Some (Some 0, out, left) \<Longrightarrow>
    out = event_frame (name, version, payload)"
  by (auto simp: send_payload_event_def Let_def event_frame_def event_header_def dest: send_framed_out)

lemma show_int_0: "show_int 0 = ''0''"
  by (simp add: show_int_def show_nat.simps digit_char_def char_of_def bit_0)

lemma send_log_event: "ts_autosave_send_log entry ws = send_payload_event ''LOG'' (Some (case entry of Some e \<Rightarrow> e | None \<Rightarrow> ''{}'')) 0 ws"
  by (simp add: ts_autosave_send_log_def send_payload_event_def Let_def show_int_0)

text \<open>C24: Events that one writer sends, each by a call that reports success, come out of the pipe complete and
  in order, however writes and reads cut the bytes and whatever bytes the payloads hold.\<close>

theorem events_reach_the_child:
  assumes good: "list_all good_save_event es"
    and sent: "list_all2 (\<lambda>(name, version, payload) (ws, out). \<exists>left.
      send_payload_event name (Some payload) version ws = Some (Some 0, out, left)) es writes"
    and input: "only_data input" "input_bytes input = concat (map snd writes)"
  shows "\<exists>input'. read_times read_event_step (length es) input = Some (es, input') \<and> input_bytes input' = []"
proof -
  from sent have "map snd writes = map event_frame es"
    by (induction rule: list_all2_induct) (auto dest: send_event_out)
  with input(2) have "input_bytes input = concat (map event_frame es) @ []" by simp
  from pipe.recv_all [OF good input(1) this] show ?thesis by auto
qed


section \<open>The child\<close>

lemma header_no_stop: "event_header e \<noteq> ''STOP''"
proof
  assume "event_header e = ''STOP''"
  moreover obtain name v p where "e = (name, v, p)" by (metis prod_cases3)
  then have "CHR '' '' \<in> set (event_header e)" by (simp add: event_header_def)
  ultimately show False by simp
qed

lemma read_event_handles:
  assumes "good_save_event (name, version, payload)" and "only_data input"
    and "input_bytes input = event_frame (name, version, payload) @ rest"
  obtains input' where "autosave_read_event dp lp st input fs =
      (case handle_save_event dp lp name version payload st fs of
        (st, fs) \<Rightarrow> Some (Falls_through, st, input', fs))"
    and "input_bytes input' = rest" and "only_data input'"
proof -
  from event_crosses [OF assms] obtain i1 i2 where
    i: "read_line_fd [] 128 input = (Some 1, event_header (name, version, payload), i1)"
      "read_exact_alloc (length payload) i1 = (Some (Some payload), i2)" "input_bytes i2 = rest" "only_data i2" by auto
  have "is_cstr payload" using assms(1) by (auto simp: good_save_event_def)
  with i header_facts [OF assms(1)] header_no_stop have "autosave_read_event dp lp st input fs =
      (case handle_save_event dp lp name version payload st fs of (st, fs) \<Rightarrow> Some (Falls_through, st, i2, fs))"
    by (simp add: autosave_read_event_def c_string_of_id)
  with i(3,4) show ?thesis by (rule that [rotated])
qed




section \<open>The document file\<close>

text \<open>\<open>passes p V fs fs'\<close>: in every state of the store between the two the file \<open>p\<close> is one of \<open>V\<close>.\<close>

definition passes :: "string \<Rightarrow> string option set \<Rightarrow> file_system \<Rightarrow> file_system \<Rightarrow> bool" where
  "passes p V fs fs' \<longleftrightarrow> (\<exists>ms. fs_states fs' = ms @ fs_states fs \<and> (\<forall>m \<in> set ms. m p \<in> V))"

lemma passes_refl: "passes p V fs fs"
  by (simp add: passes_def)

lemma passes_trans: "passes p V fs fs1 \<Longrightarrow> passes p V fs1 fs2 \<Longrightarrow> passes p V fs fs2"
  by (auto simp: passes_def)

lemma passes_last: "passes p V fs fs' \<Longrightarrow> fs_files fs p \<in> V \<Longrightarrow> fs_files fs' p \<in> V"
  by (auto simp: passes_def fs_states_def Cons_eq_append_conv)

lemma passes_frame: "frame A fs fs' \<Longrightarrow> p \<notin> A \<Longrightarrow> fs_files fs p \<in> V \<Longrightarrow> passes p V fs fs'"
  by (auto simp: passes_def frame_def)

lemma passes_states:
  "passes p V fs fs' \<Longrightarrow> fs_past fs = [] \<Longrightarrow> fs_files fs p \<in> V \<Longrightarrow> m \<in> set (fs_states fs') \<Longrightarrow> m p \<in> V"
  by (auto simp: passes_def fs_states_def [of fs])

lemma frame_append_log:
  assumes "ts_append_json_log lp e fs = (rc, fs')"
  shows "frame {lp} fs fs'"
proof -
  obtain rc1 fs1 where m: "mkdir_parent_recursive lp fs = (rc1, fs1)" by fastforce
  obtain fpo fs2 where o1: "fopen_ab lp fs1 = (fpo, fs2)" by fastforce
  note f1 = frame_mkdir_parent [OF m, of "{lp}"]
  note f2 = frame_trans [OF f1 frame_fopen_ab [OF o1 insertI1]]
  show ?thesis
  proof (cases "rc1 = 0 \<and> fpo \<noteq> None")
    case False
    with assms m o1 f1 f2 show ?thesis by (auto simp: ts_append_json_log_def split: if_splits option.splits)
  next
    case True
    then obtain fp where fp: "fpo = Some fp" by auto
    with o1 have p: "fp_path fp = lp"
      by (cases rule: io_call_cases [of fs1]) (auto simp: fopen_ab_def split: io_outcome.splits)
    obtain ok fp3 fs3 where w: "fwrite ((case e of Some e \<Rightarrow> e | None \<Rightarrow> ''{}'') @ [CHR 0x0A]) fp fs2 = (ok, fp3, fs3)"
      by (metis prod_cases3)
    with assms m True o1 fp have c: "fclose fp3 fs3 = (rc, fs')" by (auto simp: ts_append_json_log_def)
    from frame_fwrite [OF w, of "{lp}"] frame_fclose [OF c, of "{lp}"] f2 p show ?thesis by (auto intro: frame_trans)
  qed
qed

lemma frame_atomic_write:
  assumes "ts_atomic_write_text p (Some t) fs = (rc, fs')" and "length p + 4 < PATH_MAX"
  shows "frame {p, p @ ''.tmp''} fs fs'"
proof -
  from atomic_write_states [OF assms] obtain fs1 where f: "frame {p @ ''.tmp''} fs fs1"
    and s: "fs_states fs' = ((fs_files fs1)(p \<mapsto> t, p @ ''.tmp'' := None)) # fs_states fs1 \<or> fs_states fs' = fs_states fs1" by blast
  have "frame {p, p @ ''.tmp''} fs1 fs'"
    using s by (auto simp: frame_def)
  moreover have "frame {p, p @ ''.tmp''} fs fs1" using f by (rule frame_mono) auto
  ultimately show ?thesis by (rule frame_trans [rotated])
qed

lemma passes_backup:
  assumes "ts_write_with_backup p (Some t) fs = (rc, fs')" and "length p + 4 < PATH_MAX"
    and "fs_files fs p \<in> V" and "Some t \<in> V"
  shows "passes p V fs fs'"
proof -
  from backup_states [OF assms(1,2)] obtain fs1 where f: "frame {p @ ''.tmp'', p @ ''.bak''} fs fs1"
    and s: "fs_states fs' = ((fs_files fs1)(p \<mapsto> t, p @ ''.tmp'' := None)) # fs_states fs1 \<or> fs_states fs' = fs_states fs1" by blast
  have "passes p V fs1 fs'" using s assms(4) by (auto simp: passes_def)
  moreover have "passes p V fs fs1" using passes_frame [OF f _ assms(3)] by simp
  ultimately show ?thesis by (rule passes_trans [rotated])
qed

lemma passes_log: "lp \<noteq> p \<Longrightarrow> fs_files fs p \<in> V \<Longrightarrow> passes p V fs (snd (ts_append_json_log lp e fs))"
  using frame_append_log [of lp e fs] passes_frame [of "{lp}" fs _ p V]
  by (cases "ts_append_json_log lp e fs") auto

lemma passes_autosave:
  assumes "length p + 13 < PATH_MAX" and "fs_files fs p \<in> V"
  shows "passes p V fs (snd (ts_atomic_write_text (autosave_path p) (Some c) fs))"
proof -
  have a: "autosave_path p = p @ ''.autosave''" using assms(1) by (simp add: autosave_path_def suffix_path_fits)
  obtain rc fs' where w: "ts_atomic_write_text (autosave_path p) (Some c) fs = (rc, fs')" by fastforce
  with a assms(1) have "frame {p @ ''.autosave'', p @ ''.autosave.tmp''} fs fs'"
    using frame_atomic_write [OF w] by simp
  with w assms(2) show ?thesis by (auto intro: passes_frame)
qed

lemma passes_event:
  assumes "handle_save_event p lp event version payload st fs = (st', fs')" and "lp \<noteq> p"
    and "length p + 13 < PATH_MAX" and "fs_files fs p \<in> V"
    and "event = ''SAVE_NOW'' \<Longrightarrow> Some payload \<in> V"
  shows "passes p V fs fs'"
proof (cases "event = ''SAVE_NOW''")
  case True
  obtain rc fs1 where b: "ts_write_with_backup p (Some payload) fs = (rc, fs1)" by fastforce
  have "passes p V fs fs1" using passes_backup [OF b _ assms(4)] assms(3,5) True by simp
  with passes_log [OF assms(2) passes_last [OF this assms(4)]] True b assms(1) show ?thesis
    by (auto simp: handle_save_event_def Let_def intro: passes_trans)
next
  case False
  with assms(1) passes_log [OF assms(2,4)] show ?thesis
    by (auto simp: handle_save_event_def passes_refl split: if_splits)
qed

text \<open>The contents the document file may get in one iteration: the one it has, and the one that a save
  request brings, which is then the latest content.\<close>

lemma read_event_passes:
  assumes "autosave_read_event p lp st input fs = Some (control, st', input', fs')" and "lp \<noteq> p"
    and "length p + 13 < PATH_MAX"
  shows "passes p {fs_files fs p, as_latest_content st'} fs fs'"
proof -
  obtain rco header i1 where l: "read_line_fd [] 128 input = (rco, header, i1)" by (metis prod_cases3)
  show ?thesis
  proof (cases "rco = None \<or> the rco \<le> 0")
    case True
    with assms(1) l show ?thesis by (cases rco) (auto simp: autosave_read_event_def passes_refl)
  next
    case run: False
    then obtain rc where rc: "rco = Some rc" "\<not> rc \<le> 0" by auto
    show ?thesis
    proof (cases "c_string_of header = ''STOP''")
      case True
      with assms(1) l rc passes_autosave [OF assms(3), of fs "{fs_files fs p, as_latest_content st'}"] show ?thesis
        by (auto simp: autosave_read_event_def passes_refl split: option.splits)
    next
      case False
      with assms(1) l rc obtain sc where sc: "scan_header (c_string_of header) = Some sc"
        by (auto simp: autosave_read_event_def split: bind_splits)
      show ?thesis
      proof (cases sc)
        case None
        with assms(1) l rc False sc show ?thesis by (simp add: autosave_read_event_def passes_refl)
      next
        case (Some ev)
        obtain event version len where ev: "ev = (event, version, len)" by (metis prod_cases3)
        obtain d i2 where d: "read_exact_alloc len i1 = (d, i2)" by fastforce
        show ?thesis
        proof (cases "d = None \<or> d = Some None")
          case True
          with assms(1) l rc False sc Some ev d show ?thesis by (auto simp: autosave_read_event_def passes_refl)
        next
          case dd: False
          then obtain data where data: "d = Some (Some data)" by (cases d) auto
          obtain st2 fs2 where h: "handle_save_event p lp event version (c_string_of data) st fs = (st2, fs2)" by fastforce
          with assms(1) l rc False sc Some ev d data have eq: "st' = st2" "fs' = fs2"
            by (simp_all add: autosave_read_event_def)
          have "event = ''SAVE_NOW'' \<Longrightarrow> as_latest_content st2 = Some (c_string_of data)"
            using h by (auto simp: handle_save_event_def Let_def ts_strdup_def)
          with passes_event [OF h assms(2,3)] eq show ?thesis by auto
        qed
      qed
    qed
  qed
qed




section \<open>Concrete events\<close>

lemma send_whole:
  assumes "good_save_event (name, version, payload)" and "length payload \<le> 200" and "payload \<noteq> []"
  shows "send_payload_event name (Some payload) version [Wrote 200, Wrote 200] = Some (Some 0, event_frame (name, version, payload), [])"
proof -
  let ?h = "event_header (name, version, payload) @ [CHR 0x0A]"
  have "length ?h < 128" using header_facts(3) [OF assms(1)] by simp
  moreover from this have "ts_write_all_fd ?h [Wrote 200, Wrote 200] = (Some 0, ?h, [Wrote 200])"
    by (simp add: write_all_fd_simps)
  moreover have "ts_write_all_fd payload [Wrote 200] = (Some 0, payload, [])"
    using assms(2,3) by (simp add: write_all_fd_simps)
  ultimately have "send_framed ?h payload [Wrote 200, Wrote 200] = Some (Some 0, ?h @ payload, [])"
    by (simp add: send_framed_def)
  then show ?thesis by (simp add: send_payload_event_def Let_def event_frame_def event_header_def)
qed

lemma example_events: "good_save_event (''SNAPSHOT'', 1, ''ab'')" "good_save_event (''LOG'', 0, ''{}'')"
  "good_save_event (''SAVE_NOW'', 0, ''ab'')"
  by (simp_all add: good_save_event_def c_int_max_def)

theorem events_reach_the_child_witness:
  "\<exists>frame1 frame2 input'. send_payload_event ''SNAPSHOT'' (Some ''ab'') 1 [Wrote 200, Wrote 200] = Some (Some 0, frame1, []) \<and>
    send_payload_event ''LOG'' (Some ''{}'') 0 [Wrote 200, Wrote 200] = Some (Some 0, frame2, []) \<and>
    read_times read_event_step (Suc (Suc 0)) [ReadData (frame1 @ frame2)] =
      Some ([(''SNAPSHOT'', 1, ''ab''), (''LOG'', 0, ''{}'')], input')"
proof -
  let ?f1 = "event_frame (''SNAPSHOT'', 1, ''ab'')" and ?f2 = "event_frame (''LOG'', 0, ''{}'')"
  have s: "send_payload_event ''SNAPSHOT'' (Some ''ab'') 1 [Wrote 200, Wrote 200] = Some (Some 0, ?f1, [])"
    "send_payload_event ''LOG'' (Some ''{}'') 0 [Wrote 200, Wrote 200] = Some (Some 0, ?f2, [])"
    by (rule send_whole, rule example_events, simp, simp)+
  have "?f1 @ ?f2 \<noteq> []" by (simp add: event_frame_def)
  then have "only_data [ReadData (?f1 @ ?f2)]" by simp
  with events_reach_the_child [of "[(''SNAPSHOT'', 1, ''ab''), (''LOG'', 0, ''{}'')]"
      "[([Wrote 200, Wrote 200], ?f1), ([Wrote 200, Wrote 200], ?f2)]" "[ReadData (?f1 @ ?f2)]"] s example_events(1,2)
  show ?thesis by (auto simp del: read_times.simps)
qed



lemma example_stop: "only_data [ReadData (''STOP'' @ [CHR 0x0A])]"
  "input_bytes [ReadData (''STOP'' @ [CHR 0x0A])] = ''STOP'' @ CHR 0x0A # []"
  by simp_all

definition example_child :: autosave_state where
  "example_child = \<lparr>as_latest_content = Some ''x'', as_latest_version = 1, as_next_save = 5\<rparr>"



end
