(* ===== verification/Restart.thy ===== *)
theory Restart
  imports Autosave_Correct
begin

text \<open>
  The life of a document across two runs of the server: the first is shut down, its child saves the
  text and stops, and the second starts from the file.
\<close>

lemma save_now_handled:
  assumes "fs_outcomes fs = []" and "length path + 4 < PATH_MAX" and "log_path \<noteq> path"
  shows "\<exists>fs'. handle_save_event path log_path ''SAVE_NOW'' version payload st fs =
      (st\<lparr>as_latest_content := Some payload, as_latest_version := version\<rparr>, fs') \<and>
    fs_outcomes fs' = [] \<and> fs_files fs' path = Some payload"
proof -
  from backup_ok [OF assms(1,2), of payload] obtain fs1 where b:
    "ts_write_with_backup path (Some payload) fs = (0, fs1)" "fs_outcomes fs1 = []" "fs_files fs1 path = Some payload"
    by auto
  from append_log_ok [OF b(2), of log_path "save_log_entry ''manual_save'' version path"] b assms(3)
  show ?thesis by (auto simp: handle_save_event_def Let_def ts_strdup_def)
qed

lemma autosave_path_fits: "length path + 13 < PATH_MAX \<Longrightarrow> autosave_path path = path @ ''.autosave''"
  by (simp add: autosave_path_def suffix_path_fits)

text \<open>The timer writes only the side file and the log.\<close>

lemma timer_keeps_document:
  assumes "fs_outcomes fs = []" and "length path + 13 < PATH_MAX" and "log_path \<noteq> path"
  shows "\<exists>st' fs'. autosave_timer path log_path interval now later st fs = (st', fs') \<and>
    fs_outcomes fs' = [] \<and> fs_files fs' path = fs_files fs path \<and> as_latest_content st' = as_latest_content st"
proof (cases "as_next_save st \<le> now \<and> as_latest_content st \<noteq> None")
  case True
  then obtain c where c: "as_latest_content st = Some c" by auto
  note p = autosave_path_fits [OF assms(2)]
  from atomic_write_ok [OF assms(1), of "autosave_path path" c] assms(2) p obtain fs1 where w:
    "ts_atomic_write_text (autosave_path path) (Some c) fs = (0, fs1)" "fs_outcomes fs1 = []"
    "fs_files fs1 path = fs_files fs path" by auto
  from append_log_ok [OF w(2), of log_path "save_log_entry ''autosave'' (as_latest_version st) (autosave_path path)"]
    w c True assms(3) show ?thesis by (auto simp: autosave_timer_def Let_def)
qed (use assms(1) in \<open>auto simp: autosave_timer_def Let_def\<close>)

lemma stop_keeps_document:
  assumes "fs_outcomes fs = []" and "length path + 13 < PATH_MAX"
    and "only_data input" and "input_bytes input = ''STOP'' @ CHR 0x0A # rest"
  shows "\<exists>input' fs'. autosave_iteration path log_path interval True now later st input fs = Some (Breaks, st, input', fs') \<and>
    fs_outcomes fs' = [] \<and> fs_files fs' path = fs_files fs path"
proof -
  from read_line_crosses [OF assms(4), of "[]" 128] assms(3) obtain i1 where
    r: "read_line_fd [] 128 input = (Some 1, ''STOP'', i1)" by auto
  show ?thesis
  proof (cases "as_latest_content st")
    case None
    with r assms(1) show ?thesis by (simp add: autosave_iteration_def autosave_read_event_def c_string_of_def)
  next
    case (Some c)
    note p = autosave_path_fits [OF assms(2)]
    from atomic_write_ok [OF assms(1), of "autosave_path path" c] assms(2) p obtain fs1 where w:
      "ts_atomic_write_text (autosave_path path) (Some c) fs = (0, fs1)" "fs_outcomes fs1 = []"
      "fs_files fs1 path = fs_files fs path" by auto
    with r Some show ?thesis by (simp add: autosave_iteration_def autosave_read_event_def c_string_of_def)
  qed
qed

lemma send_stop_out: "ts_autosave_send_stop ws = (Some 0, out, left) \<Longrightarrow> out = ''STOP'' @ [CHR 0x0A]"
  using write_all_fd_prefix [of "''STOP'' @ [CHR 0x0A]" ws "Some 0" out left] by (simp add: ts_autosave_send_stop_def)

section \<open>The loop of the child\<close>

text \<open>The events that have arrived take as many rounds in which \<open>select\<close> reports input as there are events;
  in between and meanwhile the timer may fire any number of times.\<close>

lemma loop_until_stop:
  assumes "fs_outcomes fs = []" and "fs_files fs path = Some t" and "length path + 13 < PATH_MAX" and "log_path \<noteq> path"
    and "only_data input" and "input_bytes input = ''STOP'' @ CHR 0x0A # rest" and "\<exists>r \<in> set rounds. fst r"
  shows "\<exists>st' input' fs'. autosave_loop path log_path interval rounds st input fs = Some (Breaks, st', input', fs') \<and>
    fs_outcomes fs' = [] \<and> fs_files fs' path = Some t"
  using assms
proof (induction rounds arbitrary: st fs)
  case (Cons r rounds)
  obtain ready now later where r: "r = (ready, now, later)" by (cases r)
  show ?case
  proof (cases ready)
    case True
    with stop_keeps_document [OF Cons.prems(1,3,5,6), of log_path interval now later st] Cons.prems(2) r
    show ?thesis by auto
  next
    case False
    from timer_keeps_document [OF Cons.prems(1,3,4), of interval now later st] obtain st1 fs1 where
      "autosave_timer path log_path interval now later st fs = (st1, fs1)" "fs_outcomes fs1 = []"
      "fs_files fs1 path = Some t" using Cons.prems(2) by auto
    with Cons.IH [of fs1 st1] Cons.prems False r show ?thesis by (auto simp: autosave_iteration_def)
  qed
qed simp

lemma loop_saves_and_stops:
  assumes "fs_outcomes fs = []" and "length path + 13 < PATH_MAX" and "log_path \<noteq> path"
    and "good_save_event (''SAVE_NOW'', version, t)" and "only_data input"
    and "input_bytes input = event_frame (''SAVE_NOW'', version, t) @ ''STOP'' @ CHR 0x0A # rest"
    and "2 \<le> length (filter fst rounds)"
  shows "\<exists>st' input' fs'. autosave_loop path log_path interval rounds st input fs = Some (Breaks, st', input', fs') \<and>
    fs_outcomes fs' = [] \<and> fs_files fs' path = Some t"
  using assms
proof (induction rounds arbitrary: st fs)
  case (Cons r rounds)
  obtain ready now later where r: "r = (ready, now, later)" by (cases r)
  show ?case
  proof (cases ready)
    case True
    from read_event_handles [OF Cons.prems(4-6)] obtain input1 where i:
      "autosave_read_event path log_path st input fs = (case handle_save_event path log_path ''SAVE_NOW'' version t st fs of
        (st, fs) \<Rightarrow> Some (Falls_through, st, input1, fs))"
      "input_bytes input1 = ''STOP'' @ CHR 0x0A # rest" "only_data input1" by blast
    from save_now_handled [OF Cons.prems(1) _ Cons.prems(3), of version t st] Cons.prems(2) obtain fs0 where h:
      "handle_save_event path log_path ''SAVE_NOW'' version t st fs =
         (st\<lparr>as_latest_content := Some t, as_latest_version := version\<rparr>, fs0)"
      "fs_outcomes fs0 = []" "fs_files fs0 path = Some t" by auto
    from timer_keeps_document [OF h(2) Cons.prems(2,3), of interval now later
        "st\<lparr>as_latest_content := Some t, as_latest_version := version\<rparr>"] obtain st1 fs1 where w:
      "autosave_timer path log_path interval now later (st\<lparr>as_latest_content := Some t, as_latest_version := version\<rparr>) fs0 =
         (st1, fs1)"
      "fs_outcomes fs1 = []" "fs_files fs1 path = Some t" using h(3) by auto
    have "filter fst rounds \<noteq> []" using Cons.prems(7) True r by auto
    then have "\<exists>r \<in> set rounds. fst r" by (simp add: filter_empty_conv)
    from loop_until_stop [OF w(2,3) Cons.prems(2,3) i(3,2) this, of interval st1] i(1) h(1) w(1) r True
    show ?thesis by (simp add: autosave_iteration_def)
  next
    case False
    from timer_keeps_document [OF Cons.prems(1-3), of interval now later st] obtain st1 fs1 where
      "autosave_timer path log_path interval now later st fs = (st1, fs1)" "fs_outcomes fs1 = []" by auto
    with Cons.IH [of fs1 st1] Cons.prems False r show ?thesis by (auto simp: autosave_iteration_def)
  qed
qed simp



end
