(* ===== verification/Terminal.thy ===== *)
theory Terminal
  imports Server ClientState Transport
begin

text \<open>
  The terminal client, \<open>client.c\<close>: the queue between the reader thread and the user interface, the
  handling of keys and messages, and what is drawn. The queue is a linked list with a tail pointer
  in an explicit store of nodes; what is sent and what is drawn is returned. The functions of the
  C locale and of curses are parameters, gathered in the record \<open>terminal_env\<close>.
\<close>

section \<open>The queue of incoming messages\<close>

record IncomingNode =
  nd_message :: TsMessage
  nd_next :: "nat option"

text \<open>Nodes have addresses; a pointer is an address or null. Following a pointer to a node that is not
  allocated is undefined. The lock makes each operation one step.\<close>

record IncomingQueue =
  iq_nodes :: "nat \<Rightarrow> IncomingNode option"
  iq_head :: "nat option"
  iq_tail :: "nat option"

definition queue_init :: IncomingQueue where
  "queue_init = \<lparr>iq_nodes = (\<lambda>_. None), iq_head = None, iq_tail = None\<rparr>"

text \<open>\<open>node\<close> is the result of \<open>calloc\<close>.\<close>

definition queue_push :: "nat option \<Rightarrow> TsMessage \<Rightarrow> IncomingQueue \<Rightarrow> IncomingQueue ub" where
  "queue_push node message queue =
     (case node of
        None \<Rightarrow> Some queue
      | Some a \<Rightarrow>
          (let nodes = (iq_nodes queue)(a \<mapsto> \<lparr>nd_message = message, nd_next = None\<rparr>) in
           case iq_tail queue of
             None \<Rightarrow> Some (queue\<lparr>iq_nodes := nodes, iq_head := Some a, iq_tail := Some a\<rparr>)
           | Some t \<Rightarrow>
               (case nodes t of
                  None \<Rightarrow> None
                | Some last_node \<Rightarrow>
                    Some (queue\<lparr>iq_nodes := nodes(t \<mapsto> last_node\<lparr>nd_next := Some a\<rparr>), iq_tail := Some a\<rparr>))))"

definition queue_pop :: "IncomingQueue \<Rightarrow> (TsMessage option \<times> IncomingQueue) ub" where
  "queue_pop queue =
     (case iq_head queue of
        None \<Rightarrow> Some (None, queue)
      | Some a \<Rightarrow>
          (case iq_nodes queue a of
             None \<Rightarrow> None
           | Some node \<Rightarrow>
               (let queue = queue\<lparr>iq_head := nd_next node\<rparr>;
                    queue = (if iq_head queue = None then queue\<lparr>iq_tail := None\<rparr> else queue) in
                Some (Some (nd_message node), queue\<lparr>iq_nodes := (iq_nodes queue)(a := None)\<rparr>))))"

section \<open>The state of the client\<close>

record TerminalClient =
  tc_host :: string
  tc_port :: int
  tc_client_id :: string
  tc_transport :: TsTransport
  tc_state :: TsClientState
  tc_incoming :: IncomingQueue
  tc_running :: bool
  tc_cursor_pos :: nat
  tc_scroll_line :: int

text \<open>What the reader thread does with one result of \<open>ts_transport_recv\<close>: the message it pushes and
  whether it goes on.\<close>

definition reader_message :: "int \<Rightarrow> TsMessage \<Rightarrow> string \<Rightarrow> TsMessage \<times> bool" where
  "reader_message rc message error =
     (if rc \<noteq> 0 then
        (ts_message_init\<lparr>
           msg_type := snprintf_buf TS_MAX_TYPE ''ERROR'',
           msg_message := snprintf_buf TS_MAX_STATUS (take 150 error)\<rparr>, False)
      else (message, True))"

section \<open>Positions on the screen\<close>

datatype mb_result = Invalid_char | Null_char | Wide_char nat

record terminal_env =
  te_mbrtowc :: "string \<Rightarrow> mb_result"
  te_wcwidth :: "nat \<Rightarrow> int"
  te_iswprint :: "nat \<Rightarrow> bool"
  te_wcrtomb :: "nat \<Rightarrow> string option"
  te_KEY_CODE_YES :: int
  te_KEY_LEFT :: nat
  te_KEY_RIGHT :: nat
  te_KEY_BACKSPACE :: nat

fun count_newlines :: "string \<Rightarrow> int \<Rightarrow> int" where
  "count_newlines [] line = line"
| "count_newlines (c # content) line = count_newlines content (if c = CHR 0x0A then line + 1 else line)"

definition line_for_pos :: "string \<Rightarrow> nat \<Rightarrow> int ub" where
  "line_for_pos content pos = do {
     byte_limit \<leftarrow> ts_utf8_byte_offset (Some content) pos;
     Some (count_newlines (take byte_limit content) 0)
   }"

text \<open>\<open>start\<close> is the text from the pointer on, \<open>remaining\<close> the distance to \<open>end\<close>.\<close>

definition bounded_utf8_char_bytes :: "string \<Rightarrow> nat \<Rightarrow> nat" where
  "bounded_utf8_char_bytes start remaining =
     (let bytes = ts_utf8_char_bytes (Some start) in
      if bytes = 0 \<or> bytes > remaining then 1 else bytes)"

definition utf8_display_width :: "terminal_env \<Rightarrow> string \<Rightarrow> int" where
  \<comment> \<open>the argument is the bytes of the character\<close>
  "utf8_display_width env bytes =
     (case te_mbrtowc env bytes of
        Invalid_char \<Rightarrow> 1
      | Null_char \<Rightarrow> 0
      | Wide_char wc \<Rightarrow> (let width = te_wcwidth env wc in if width < 0 then 1 else width))"

lemma bounded_bytes_pos: "0 < bounded_utf8_char_bytes start remaining"
  by (simp add: bounded_utf8_char_bytes_def Let_def del: ts_utf8_char_bytes_0)

function col_loop :: "terminal_env \<Rightarrow> string \<Rightarrow> nat \<Rightarrow> int \<Rightarrow> int" where
  \<comment> \<open>\<open>content\<close> is the text from index \<open>i\<close> on, \<open>room\<close> is \<open>byte_limit - i\<close>\<close>
  "col_loop env content room col =
     (if room = 0 \<or> content = [] then col
      else if hd content = CHR 0x0A then col_loop env (tl content) (room - 1) 0
      else (let bytes = bounded_utf8_char_bytes content room in
        col_loop env (drop bytes content) (room - bytes)
          (col + utf8_display_width env (take bytes content))))"
  by pat_completeness auto
termination
  by (relation "measure (\<lambda>(env, content, room, col). room)") (auto simp: bounded_bytes_pos)

declare col_loop.simps [simp del]

definition col_for_pos :: "terminal_env \<Rightarrow> string \<Rightarrow> nat \<Rightarrow> int ub" where
  "col_for_pos env content pos = do {
     byte_limit \<leftarrow> ts_utf8_byte_offset (Some content) pos;
     Some (col_loop env content byte_limit 0)
   }"

section \<open>Drawing\<close>

datatype draw = Draw int int string

definition mvaddnstr :: "int \<Rightarrow> int \<Rightarrow> string \<Rightarrow> int \<Rightarrow> draw" where
  "mvaddnstr row col s n = Draw row col (if n < 0 then s else take (nat n) s)"

text \<open>\<open>line\<close> is the text between \<open>start\<close> and \<open>end\<close>.\<close>

function segment_loop :: "terminal_env \<Rightarrow> int \<Rightarrow> int \<Rightarrow> string \<Rightarrow> int \<Rightarrow> int \<Rightarrow> draw list" where
  "segment_loop env row col line max_cols used =
     (if line = [] \<or> \<not> used < max_cols then []
      else (let bytes = bounded_utf8_char_bytes line (length line);
                width = utf8_display_width env (take bytes line) in
        if used + width > max_cols then []
        else mvaddnstr row (col + used) line (int bytes) #
          segment_loop env row col (drop bytes line) max_cols (used + width)))"
  by pat_completeness auto
termination
  by (relation "measure (\<lambda>(env, row, col, line, max_cols, used). length line)")
    (auto simp: bounded_bytes_pos)

declare segment_loop.simps [simp del]

definition render_line_segment :: "terminal_env \<Rightarrow> int \<Rightarrow> int \<Rightarrow> string \<Rightarrow> int \<Rightarrow> draw list" where
  "render_line_segment env row col line max_cols = segment_loop env row col line max_cols 0"

definition line_prefix :: "int \<Rightarrow> string" where
  \<comment> \<open>\<open>snprintf(prefix, sizeof(prefix), "%4d ", number)\<close>\<close>
  "line_prefix number =
     (let digits = show_int number in
      snprintf_buf 16 (replicate (4 - length digits) CHR '' '' @ digits @ '' ''))"

text \<open>The loop of \<open>render_lines\<close>: \<open>p\<close> is the text from the pointer on, \<open>start\<close> the current line so far.\<close>

fun lines_loop :: "terminal_env \<Rightarrow> int \<Rightarrow> int \<Rightarrow> int \<Rightarrow> string \<Rightarrow> string \<Rightarrow> int \<Rightarrow> int \<Rightarrow> draw list" where
  "lines_loop env height width scroll_line p start line row =
     (let shown = (line \<ge> scroll_line \<and> row < height - 1);
          prefix = line_prefix (line + 1);
          body_width = width - int (length prefix) - 1;
          drawn = (if shown then mvaddnstr row 0 prefix (width - 1) #
                     render_line_segment env row (int (length prefix)) start (if body_width < 0 then 0 else body_width)
                   else []);
          row' = (if shown then row + 1 else row) in
      case p of
        [] \<Rightarrow> drawn
      | c # p \<Rightarrow>
          if c = CHR 0x0A then drawn @ lines_loop env height width scroll_line p [] (line + 1) row'
          else lines_loop env height width scroll_line p (start @ [c]) line row)"

declare lines_loop.simps [simp del]

definition scroll_to :: "int \<Rightarrow> int \<Rightarrow> int \<Rightarrow> int" where
  "scroll_to cursor_line height scroll_line =
     (let scroll_line = (if cursor_line < scroll_line then cursor_line else scroll_line) in
      if cursor_line \<ge> scroll_line + height - 2 then cursor_line - height + 3 else scroll_line)"

definition render_lines ::
  "terminal_env \<Rightarrow> int \<Rightarrow> int \<Rightarrow> TerminalClient \<Rightarrow> (draw list \<times> TerminalClient) ub" where
  "render_lines env height width client = do {
     let content = cs_content (tc_state client);
     cursor_line \<leftarrow> line_for_pos content (tc_cursor_pos client);
     let scroll_line = scroll_to cursor_line height (tc_scroll_line client);
     Some (lines_loop env height width scroll_line content [] 0 1, client\<lparr>tc_scroll_line := scroll_line\<rparr>)
   }"

definition status_line :: "TsClientState \<Rightarrow> string" where
  "status_line state =
     snprintf_buf 256 (cs_client_id state @ '' | v'' @ show_int (cs_version state) @ '' | pending='' @
       show_nat (cs_queue_len state) @ '' | '' @ cs_status state)"

text \<open>The result: what is drawn, where the cursor is put (if it is), and the client.\<close>

definition render ::
  "terminal_env \<Rightarrow> int \<Rightarrow> int \<Rightarrow> TerminalClient \<Rightarrow> (draw list \<times> (int \<times> int) option \<times> TerminalClient) ub" where
  "render env height width client = do {
     (drawn, client) \<leftarrow> render_lines env height width client;
     let content = cs_content (tc_state client);
     cursor_line \<leftarrow> line_for_pos content (tc_cursor_pos client);
     col \<leftarrow> col_for_pos env content (tc_cursor_pos client);
     let screen_row = cursor_line - tc_scroll_line client + 1;
     let screen_col = col + 5;
     Some (mvaddnstr 0 0 (status_line (tc_state client)) (width - 1) # drawn @
         [mvaddnstr (height - 1) 0 ''Ctrl-S save | Ctrl-Q quit'' (width - 1)],
       if screen_row > 0 \<and> screen_row < height - 1 \<and> screen_col \<ge> 0 \<and> screen_col < width
       then Some (screen_row, screen_col) else None,
       client)
   }"

section \<open>The cursor and the operations under way\<close>

definition pending_operation_delta :: "TsOperation \<Rightarrow> int" where
  "pending_operation_delta op =
     (if op_kind op = TS_OP_INSERT then 1 else if op_kind op = TS_OP_DELETE then -1 else 0)"

text \<open>The sum of \<open>projected_content_length\<close> before it is cut off at zero.\<close>

definition projected_sum :: "TsClientState \<Rightarrow> int" where
  "projected_sum state =
     (let len = int (ts_utf8_char_count (Some (cs_content state)));
          len = (if cs_has_inflight state then len + pending_operation_delta (po_op (cs_inflight state)) else len) in
      foldl (\<lambda>len pending. len + pending_operation_delta (po_op pending)) len (cs_queue state))"

definition projected_content_length :: "TerminalClient \<Rightarrow> nat" where
  "projected_content_length client =
     (let len = projected_sum (tc_state client) in if len < 0 then 0 else nat len)"

definition clamp_cursor_to_projected_content :: "TerminalClient \<Rightarrow> TerminalClient" where
  "clamp_cursor_to_projected_content client =
     (let len = projected_content_length client in
      if tc_cursor_pos client > len then client\<lparr>tc_cursor_pos := len\<rparr> else client)"

text \<open>The loop over the incoming messages; it goes on as long as there is a message.\<close>

partial_function (option) drain_messages :: "TerminalClient \<Rightarrow> (TerminalClient \<times> TsMessage list) option" where
  "drain_messages client =
     Option.bind (queue_pop (tc_incoming client)) (\<lambda>(popped, incoming).
       case popped of
         None \<Rightarrow> Some (client, [])
       | Some message \<Rightarrow>
           Option.bind (ts_client_state_handle_message (tc_state client) message) (\<lambda>(state, sent).
           Option.bind (drain_messages
               (clamp_cursor_to_projected_content (client\<lparr>tc_incoming := incoming, tc_state := state\<rparr>)))
             (\<lambda>(client, sent'). Some (client, sent @ sent'))))"

section \<open>Keys\<close>

definition CTRL_Q :: nat where "CTRL_Q = 17"
definition CTRL_S :: nat where "CTRL_S = 19"

definition queue_insert :: "TerminalClient \<Rightarrow> string \<Rightarrow> (TerminalClient \<times> TsMessage list) ub" where
  "queue_insert client utf8 = do {
     let op = ts_operation_init TS_OP_INSERT (tc_cursor_pos client) (Some utf8);
     (rc, oid, state, sent) \<leftarrow> ts_client_state_queue_operation True (tc_state client) op;
     Some (client\<lparr>tc_state := state, tc_cursor_pos := size_inc (tc_cursor_pos client)\<rparr>, sent)
   }"

definition delete_before_cursor :: "TerminalClient \<Rightarrow> (TerminalClient \<times> TsMessage list) ub" where
  "delete_before_cursor client =
     (if tc_cursor_pos client = 0 then Some (client, [])
      else do {
        let op = ts_operation_init TS_OP_DELETE (tc_cursor_pos client - 1) None;
        (rc, oid, state, sent) \<leftarrow> ts_client_state_queue_operation True (tc_state client) op;
        Some (client\<lparr>tc_state := state, tc_cursor_pos := tc_cursor_pos client - 1\<rparr>, sent)
      })"

definition ctrl_s_message :: TsMessage where
  "ctrl_s_message = ts_message_init\<lparr>msg_type := snprintf_buf TS_MAX_TYPE ''SAVE''\<rparr>"

definition handle_key ::
  "terminal_env \<Rightarrow> TerminalClient \<Rightarrow> nat \<Rightarrow> int \<Rightarrow> (TerminalClient \<times> TsMessage list) ub" where
  "handle_key env client key key_result =
     (if key_result = te_KEY_CODE_YES env then
        (if key = te_KEY_LEFT env \<and> tc_cursor_pos client > 0 then
           Some (client\<lparr>tc_cursor_pos := tc_cursor_pos client - 1\<rparr>, [])
         else if key = te_KEY_RIGHT env then
           (let len = projected_content_length client in
            if tc_cursor_pos client < len
            then Some (client\<lparr>tc_cursor_pos := size_inc (tc_cursor_pos client)\<rparr>, [])
            else Some (client, []))
         else if key = te_KEY_BACKSPACE env \<or> key = 127 \<or> key = 8 then delete_before_cursor client
         else Some (client, []))
      else if key = CTRL_Q then Some (client\<lparr>tc_running := False\<rparr>, [])
      else if key = CTRL_S then Some (client, [ctrl_s_message])
      else if key = 10 \<or> key = 13 then queue_insert client [CHR 0x0A]
      else if key = 127 \<or> key = 8 then delete_before_cursor client
      else if te_iswprint env key then
        (case te_wcrtomb env key of
           None \<Rightarrow> Some (client, [])
         | Some buffer \<Rightarrow> queue_insert client buffer)
      else Some (client, []))"

section \<open>Start\<close>

text \<open>The state that \<open>main\<close> builds once the connection \<open>fd\<close> is there, and the first message it sends.\<close>

definition client_main_init :: "string list \<Rightarrow> int \<Rightarrow> TerminalClient \<times> TsMessage list" where
  "client_main_init argv fd =
     (let client_id = snprintf_buf TS_MAX_CLIENT_ID (parse_str_arg argv ''--client-id'' ''u1'') in
      (\<lparr>tc_host = snprintf_buf 128 (parse_str_arg argv ''--host'' ''127.0.0.1''),
        tc_port = parse_int_arg argv ''--port'' 8765, tc_client_id = client_id,
        tc_transport = ts_transport_init fd, tc_state = ts_client_state_init (Some client_id) True,
        tc_incoming = queue_init, tc_running = True, tc_cursor_pos = 0, tc_scroll_line = 0\<rparr>,
       [ts_message_init\<lparr>
          msg_type := snprintf_buf TS_MAX_TYPE ''JOIN'',
          msg_client_id := snprintf_buf TS_MAX_CLIENT_ID client_id\<rparr>]))"

text \<open>One turn of the main loop: the messages, the screen, then the key, if \<open>get_wch\<close> gives one.\<close>

definition client_turn ::
  "terminal_env \<Rightarrow> int \<Rightarrow> int \<Rightarrow> (nat \<times> int) option \<Rightarrow> TerminalClient \<Rightarrow> (TerminalClient \<times> TsMessage list) ub" where
  "client_turn env height width key client = do {
     (client, sent) \<leftarrow> drain_messages client;
     (drawn, cursor, client) \<leftarrow> render env height width client;
     case key of
       None \<Rightarrow> Some (client, sent)
     | Some (k, rc) \<Rightarrow> do {
         (client, sent') \<leftarrow> handle_key env client k rc;
         Some (client, sent @ sent')
       }
   }"

end
