(* ===== verification/Terminal_Correct.thy ===== *)
theory Terminal_Correct
  imports Terminal ClientState_Correct
begin

text \<open>
  Correctness of the terminal client. The linked list of incoming messages is a queue (the locale
  \<open>fifo\<close> is interpreted on it); the messages are handled in the order the reader thread pushed them;
  the cursor stays in the text that the operations under way will give; what the user types comes
  out as text at the cursor; the drawing stays on the screen and the line of the cursor is shown.
\<close>

section \<open>The linked list is a queue\<close>

fun chain :: "(nat \<Rightarrow> IncomingNode option) \<Rightarrow> nat option \<Rightarrow> nat list \<Rightarrow> bool" where
  "chain nodes p [] \<longleftrightarrow> p = None"
| "chain nodes p (a # as) \<longleftrightarrow> p = Some a \<and> (\<exists>n. nodes a = Some n \<and> chain nodes (nd_next n) as)"

fun walk :: "nat \<Rightarrow> (nat \<Rightarrow> IncomingNode option) \<Rightarrow> nat option \<Rightarrow> nat list" where
  "walk 0 nodes p = []"
| "walk (Suc k) nodes p =
     (case p of
        None \<Rightarrow> []
      | Some a \<Rightarrow> a # (case nodes a of None \<Rightarrow> [] | Some n \<Rightarrow> walk k nodes (nd_next n)))"

definition message_at :: "(nat \<Rightarrow> IncomingNode option) \<Rightarrow> nat \<Rightarrow> TsMessage" where
  "message_at nodes a = (case nodes a of Some n \<Rightarrow> nd_message n | None \<Rightarrow> zero_message)"

definition queue_items :: "IncomingQueue \<Rightarrow> TsMessage list" where
  "queue_items queue =
     map (message_at (iq_nodes queue)) (walk (card (dom (iq_nodes queue))) (iq_nodes queue) (iq_head queue))"

text \<open>The nodes of the list, in order, are all the nodes there are; the tail pointer is at the last one.\<close>

definition queue_rep :: "IncomingQueue \<Rightarrow> nat list \<Rightarrow> bool" where
  "queue_rep queue as \<longleftrightarrow> chain (iq_nodes queue) (iq_head queue) as \<and> distinct as \<and> dom (iq_nodes queue) = set as \<and>
     iq_tail queue = (if as = [] then None else Some (last as))"

definition queue_inv :: "IncomingQueue \<Rightarrow> bool" where
  "queue_inv queue \<longleftrightarrow> (\<exists>as. queue_rep queue as)"

lemma walk_chain: "chain nodes p as \<Longrightarrow> walk (length as) nodes p = as"
  by (induction as arbitrary: p) auto

lemma queue_rep_items: "queue_rep q as \<Longrightarrow> queue_items q = map (message_at (iq_nodes q)) as"
  using walk_chain [of "iq_nodes q" "iq_head q" as]
  by (simp add: queue_items_def queue_rep_def distinct_card)

lemma chain_upd: "a \<notin> set as \<Longrightarrow> chain (nodes(a := x)) p as = chain nodes p as"
  by (induction as arbitrary: p) auto

lemma chain_append_node:
  "chain nodes p as \<Longrightarrow> as \<noteq> [] \<Longrightarrow> distinct as \<Longrightarrow> a \<notin> set as \<Longrightarrow> nodes (last as) = Some n \<Longrightarrow> nd_next new = None \<Longrightarrow>
    chain (nodes(a \<mapsto> new, last as \<mapsto> n\<lparr>nd_next := Some a\<rparr>)) p (as @ [a])"
proof (induction as arbitrary: p)
  case (Cons b as)
  show ?case
  proof (cases "as = []")
    case True
    with Cons.prems show ?thesis by auto
  next
    case False
    with Cons.prems have "b \<noteq> last as" "b \<noteq> a" by auto
    with Cons False show ?thesis by auto
  qed
qed simp

lemma push_rep:
  assumes "queue_rep q as" and "iq_nodes q a = None"
  shows "\<exists>q'. queue_push (Some a) m q = Some q' \<and> queue_rep q' (as @ [a]) \<and> queue_items q' = queue_items q @ [m]"
proof -
  have a: "a \<notin> set as" using assms by (auto simp: queue_rep_def)
  let ?new = "\<lparr>nd_message = m, nd_next = None\<rparr>"
  show ?thesis
  proof (cases "as = []")
    case True
    let ?q = "q\<lparr>iq_nodes := (iq_nodes q)(a \<mapsto> ?new), iq_head := Some a, iq_tail := Some a\<rparr>"
    have "queue_push (Some a) m q = Some ?q" using assms(1) True by (simp add: queue_push_def queue_rep_def)
    moreover have r: "queue_rep ?q [a]" using assms(1) True by (auto simp: queue_rep_def)
    moreover have "queue_items q = []" using queue_rep_items [OF assms(1)] True by simp
    ultimately show ?thesis using queue_rep_items [OF r] True by (simp add: message_at_def)
  next
    case False
    then have l: "last as \<in> set as" by simp
    then obtain n where n: "iq_nodes q (last as) = Some n" using assms(1) by (auto simp: queue_rep_def)
    have la: "last as \<noteq> a" using a l by auto
    let ?nodes = "(iq_nodes q)(a \<mapsto> ?new, last as \<mapsto> n\<lparr>nd_next := Some a\<rparr>)"
    let ?q = "q\<lparr>iq_nodes := ?nodes, iq_tail := Some a\<rparr>"
    have "queue_push (Some a) m q = Some ?q"
      using assms(1) False n la by (simp add: queue_push_def queue_rep_def Let_def)
    moreover have r: "queue_rep ?q (as @ [a])"
      using assms(1) False a n l chain_append_node [of "iq_nodes q" "iq_head q" as a n ?new]
      by (auto simp: queue_rep_def)
    moreover have "message_at ?nodes b = message_at (iq_nodes q) b" if "b \<in> set as" for b
      using that a n by (auto simp: message_at_def)
    moreover have "message_at ?nodes a = m" using la by (simp add: message_at_def)
    ultimately show ?thesis using queue_rep_items [OF r] queue_rep_items [OF assms(1)] by simp
  qed
qed

lemma pop_rep_empty: "queue_rep q [] \<Longrightarrow> queue_pop q = Some (None, q)"
  by (simp add: queue_rep_def queue_pop_def)

lemma pop_rep:
  assumes "queue_rep q (a # as)"
  shows "\<exists>q'. queue_pop q = Some (Some (message_at (iq_nodes q) a), q') \<and> queue_rep q' as \<and>
    queue_items q = message_at (iq_nodes q) a # queue_items q'"
proof -
  from assms obtain n where n: "iq_head q = Some a" "iq_nodes q a = Some n" "chain (iq_nodes q) (nd_next n) as"
    "a \<notin> set as" "distinct as" "dom (iq_nodes q) = insert a (set as)" by (auto simp: queue_rep_def)
  let ?q = "q\<lparr>iq_head := nd_next n, iq_tail := (if as = [] then None else iq_tail q), iq_nodes := (iq_nodes q)(a := None)\<rparr>"
  have "nd_next n = None \<longleftrightarrow> as = []" using n(3) by (cases as) auto
  then have "queue_pop q = Some (Some (message_at (iq_nodes q) a), ?q)"
    using n by (auto simp: queue_pop_def Let_def message_at_def)
  moreover have r: "queue_rep ?q as"
    using assms n by (auto simp: queue_rep_def chain_upd)
  moreover have "map (message_at ((iq_nodes q)(a := None))) as = map (message_at (iq_nodes q)) as"
    using n(4) by (auto simp: message_at_def)
  ultimately show ?thesis using queue_rep_items [OF r] queue_rep_items [OF assms] by simp
qed

text \<open>A fresh address, as \<open>calloc\<close> gives one.\<close>

definition fresh_node :: "IncomingQueue \<Rightarrow> nat" where
  "fresh_node queue = (LEAST a. iq_nodes queue a = None)"

lemma fresh_node: "queue_inv q \<Longrightarrow> iq_nodes q (fresh_node q) = None"
proof -
  assume "queue_inv q"
  then have "finite (dom (iq_nodes q))" by (auto simp: queue_inv_def queue_rep_def)
  then obtain a where "a \<notin> dom (iq_nodes q)" using ex_new_if_finite infinite_UNIV_nat by blast
  then have "iq_nodes q a = None" by (simp add: domIff)
  then show ?thesis unfolding fresh_node_def by (rule LeastI)
qed

definition push_message :: "TsMessage \<Rightarrow> IncomingQueue \<Rightarrow> IncomingQueue" where
  "push_message m queue = (case queue_push (Some (fresh_node queue)) m queue of Some q \<Rightarrow> q | None \<Rightarrow> queue)"

definition pop_message :: "IncomingQueue \<Rightarrow> (TsMessage \<times> IncomingQueue) option" where
  "pop_message queue = (case queue_pop queue of Some (Some m, q) \<Rightarrow> Some (m, q) | _ \<Rightarrow> None)"

interpretation incoming: fifo queue_items queue_inv push_message pop_message
proof unfold_locales
  fix q and x :: TsMessage
  assume q: "queue_inv q"
  then obtain as where as: "queue_rep q as" by (auto simp: queue_inv_def)
  from push_rep [OF this fresh_node [OF q], of x] show "queue_items (push_message x q) = queue_items q @ [x]"
    and "queue_inv (push_message x q)" by (auto simp: push_message_def queue_inv_def)
next
  fix q
  assume "queue_inv q" and e: "queue_items q = []"
  then obtain as where as: "queue_rep q as" by (auto simp: queue_inv_def)
  with queue_rep_items [OF as] e have "as = []" by simp
  with as show "pop_message q = None" by (simp add: pop_message_def pop_rep_empty)
next
  fix q and x :: TsMessage and xs
  assume "queue_inv q" and e: "queue_items q = x # xs"
  then obtain as where as: "queue_rep q as" by (auto simp: queue_inv_def)
  with queue_rep_items [OF as] e obtain b bs where "as = b # bs" by (cases as) auto
  with pop_rep [of q b bs] as e show "\<exists>q'. pop_message q = Some (x, q') \<and> queue_items q' = xs \<and> queue_inv q'"
    by (auto simp: pop_message_def queue_inv_def)
qed


section \<open>Handling the incoming messages\<close>

fun handle_all :: "TsClientState \<Rightarrow> TsMessage list \<Rightarrow> (TsClientState \<times> TsMessage list) option" where
  "handle_all st [] = Some (st, [])"
| "handle_all st (m # ms) = do {
     (st, sent) \<leftarrow> ts_client_state_handle_message st m;
     (st, sent') \<leftarrow> handle_all st ms;
     Some (st, sent @ sent')
   }"

definition cursor_in_range :: "TerminalClient \<Rightarrow> bool" where
  "cursor_in_range client \<longleftrightarrow> tc_cursor_pos client \<le> projected_content_length client"

lemma clamp_simps [simp]:
  "tc_state (clamp_cursor_to_projected_content client) = tc_state client"
  "tc_incoming (clamp_cursor_to_projected_content client) = tc_incoming client"
  "cursor_in_range (clamp_cursor_to_projected_content client)"
  by (simp_all add: clamp_cursor_to_projected_content_def Let_def cursor_in_range_def projected_content_length_def)

lemma drain_rep:
  assumes "queue_rep (tc_incoming client) as"
    and "handle_all (tc_state client) (queue_items (tc_incoming client)) = Some (st', sent)"
  shows "\<exists>client'. drain_messages client = Some (client', sent) \<and> tc_state client' = st' \<and>
    queue_rep (tc_incoming client') [] \<and> (as \<noteq> [] \<or> cursor_in_range client \<longrightarrow> cursor_in_range client')"
  using assms
proof (induction as arbitrary: client st' sent)
  case Nil
  with queue_rep_items [OF Nil.prems(1)] show ?case
    by (subst drain_messages.simps) (auto simp: pop_rep_empty)
next
  case (Cons a as)
  let ?m = "message_at (iq_nodes (tc_incoming client)) a"
  from pop_rep [OF Cons.prems(1)] obtain q where q: "queue_pop (tc_incoming client) = Some (Some ?m, q)" "queue_rep q as"
    "queue_items (tc_incoming client) = ?m # queue_items q" by blast
  from Cons.prems(2) q(3) obtain st1 sent1 sent2 where h: "ts_client_state_handle_message (tc_state client) ?m = Some (st1, sent1)"
    "handle_all st1 (queue_items q) = Some (st', sent2)" "sent = sent1 @ sent2"
    by (auto split: bind_splits)
  let ?c = "clamp_cursor_to_projected_content (client\<lparr>tc_incoming := q, tc_state := st1\<rparr>)"
  from Cons.IH [of ?c st' sent2] q(2) h(2) obtain client' where
    "drain_messages ?c = Some (client', sent2)" "tc_state client' = st'" "queue_rep (tc_incoming client') []" "cursor_in_range client'"
    by auto
  with q(1) h show ?case by (subst drain_messages.simps) simp
qed

text \<open>The user interface handles the messages of the reader thread, pushed with fresh nodes, in the
  order they arrived and ends with an empty queue: no pointer of the list is dangling, the state is
  that of handling the messages one after the other, and the cursor ends within the projected text.\<close>

lemma incoming_messages_handled_in_order:
  assumes "tc_incoming client = fold push_message ms queue_init"
    and "handle_all (tc_state client) ms = Some (st', sent)"
  shows "\<exists>client'. drain_messages client = Some (client', sent) \<and> tc_state client' = st' \<and>
    queue_pop (tc_incoming client') = Some (None, tc_incoming client') \<and>
    (ms \<noteq> [] \<longrightarrow> tc_cursor_pos client' \<le> projected_content_length client')"
proof -
  have init: "queue_rep queue_init []" by (simp add: queue_rep_def queue_init_def)
  then have "queue_inv queue_init" "queue_items queue_init = []" by (auto simp: queue_inv_def queue_rep_items)
  with incoming.push_all [of queue_init ms] assms(1) obtain as where
    as: "queue_rep (tc_incoming client) as" "queue_items (tc_incoming client) = ms" by (auto simp: queue_inv_def)
  from as queue_rep_items [OF as(1)] have "as \<noteq> []" if "ms \<noteq> []" using that by auto
  with drain_rep [OF as(1)] as(2) assms(2) pop_rep_empty show ?thesis by (fastforce simp: cursor_in_range_def)
qed

section \<open>The cursor\<close>

definition all_pending :: "TsClientState \<Rightarrow> TsOperation list" where
  "all_pending st = (if cs_has_inflight st then [po_op (cs_inflight st)] else []) @ map po_op (cs_queue st)"

lemma foldl_delta: "foldl (\<lambda>len pending. len + pending_operation_delta (po_op pending)) n ps =
    n + sum_list (map pending_operation_delta (map po_op ps))"
  by (induction ps arbitrary: n) auto

lemma projected_sum_eq:
  "projected_sum st = int (ts_utf8_char_count (Some (cs_content st))) + sum_list (map pending_operation_delta (all_pending st))"
  by (simp add: projected_sum_def all_pending_def foldl_delta Let_def)

lemma pump_pending: "all_pending (fst (state_pump st)) = all_pending st"
  by (cases rule: pump_cases [of st]) (auto simp: all_pending_def)

lemma queue_operation_pending:
  assumes "ts_client_state_queue_operation True st op = Some (rc, oid, st', sent)"
  shows "all_pending st' = all_pending st @ [op]" "cs_content st' = cs_content st"
    "cs_next_op_number st' = cs_next_op_number st + 1"
proof -
  from assms have st': "st' = fst (state_pump (queued_state st op))" by (auto simp: queue_operation_eq split: if_splits)
  have "all_pending (queued_state st op) = all_pending st @ [op]" "cs_content (queued_state st op) = cs_content st"
    "cs_next_op_number (queued_state st op) = cs_next_op_number st + 1"
    by (simp_all add: all_pending_def queued_state_def push_queue_def new_pending_def)
  then show "all_pending st' = all_pending st @ [op]" "cs_content st' = cs_content st"
    "cs_next_op_number st' = cs_next_op_number st + 1"
    by (simp_all add: st' pump_pending pump_frame)
qed

lemma queue_operation_defined:
  "cs_next_op_number st < c_int_max \<Longrightarrow> \<exists>oid st' sent. ts_client_state_queue_operation True st op = Some (0, oid, st', sent)"
  by (simp add: queue_operation_eq)

lemma projected_queue:
  assumes "ts_client_state_queue_operation True st op = Some (rc, oid, st', sent)"
  shows "projected_sum st' = projected_sum st + pending_operation_delta op"
  using queue_operation_pending [OF assms] by (simp add: projected_sum_eq)

lemma delta_init [simp]:
  "pending_operation_delta (ts_operation_init TS_OP_INSERT p c) = 1"
  "pending_operation_delta (ts_operation_init TS_OP_DELETE p c) = -1"
  by (simp_all add: pending_operation_delta_def ts_operation_init_eq)

definition cursor_ok :: "TerminalClient \<Rightarrow> bool" where
  "cursor_ok client \<longleftrightarrow> int (tc_cursor_pos client) \<le> projected_sum (tc_state client)"

lemma cursor_ok_insert:
  "queue_insert client c = Some (client', sent) \<Longrightarrow> cursor_ok client \<Longrightarrow> cursor_ok client'"
  using mod_less_eq_dividend [of "tc_cursor_pos client + 1" "18446744073709551616"]
  by (auto simp: queue_insert_def Let_def cursor_ok_def size_inc_def dest!: projected_queue split: bind_splits)

lemma cursor_ok_delete:
  "delete_before_cursor client = Some (client', sent) \<Longrightarrow> cursor_ok client \<Longrightarrow> cursor_ok client'"
  by (auto simp: delete_before_cursor_def Let_def cursor_ok_def dest!: projected_queue split: bind_splits if_splits)

text \<open>No key moves the cursor behind the text that the operations under way will give, whatever they are.\<close>

lemma keys_keep_cursor_in_range:
  assumes "handle_key env client key rc = Some (client', sent)"
    and "int (tc_cursor_pos client) \<le> projected_sum (tc_state client)"
  shows "int (tc_cursor_pos client') \<le> projected_sum (tc_state client') \<and>
    tc_cursor_pos client' \<le> projected_content_length client'"
proof -
  have "cursor_ok client'"
  proof -
    have ok: "cursor_ok client" using assms(2) by (simp add: cursor_ok_def)
    have right: "cursor_ok (client\<lparr>tc_cursor_pos := size_inc (tc_cursor_pos client)\<rparr>)"
      if "tc_cursor_pos client < projected_content_length client"
      using that mod_less_eq_dividend [of "tc_cursor_pos client + 1" "18446744073709551616"]
      by (auto simp: cursor_ok_def size_inc_def projected_content_length_def Let_def split: if_splits)
    from assms(1) ok right cursor_ok_insert cursor_ok_delete show ?thesis
      by (auto simp: handle_key_def Let_def cursor_ok_def [of "client\<lparr>tc_cursor_pos := _\<rparr>"] cursor_ok_def
          split: if_splits option.splits)
  qed
  then show ?thesis
    by (auto simp: cursor_ok_def projected_content_length_def Let_def)
qed

section \<open>The keys edit the text\<close>

datatype editor_key = Typed string | Backspace | Go_left | Go_right

fun editor_step :: "editor_key \<Rightarrow> string list \<times> nat \<Rightarrow> string list \<times> nat" where
  "editor_step (Typed c) (cs, p) = (take p cs @ c # drop p cs, p + 1)"
| "editor_step Backspace (cs, p) = (if p = 0 then (cs, p) else (take (p - 1) cs @ drop p cs, p - 1))"
| "editor_step Go_left (cs, p) = (cs, p - 1)"
| "editor_step Go_right (cs, p) = (cs, if p < length cs then p + 1 else p)"

text \<open>What curses reports for a key.\<close>

inductive key_means :: "terminal_env \<Rightarrow> nat \<times> int \<Rightarrow> editor_key \<Rightarrow> bool" for env where
  enter: "k = 10 \<or> k = 13 \<Longrightarrow> rc \<noteq> te_KEY_CODE_YES env \<Longrightarrow> key_means env (k, rc) (Typed [CHR 0x0A])"
| typed: "k \<notin> {CTRL_Q, CTRL_S, 8, 10, 13, 127} \<Longrightarrow> rc \<noteq> te_KEY_CODE_YES env \<Longrightarrow> te_iswprint env k \<Longrightarrow>
    te_wcrtomb env k = Some c \<Longrightarrow> utf8_char c \<Longrightarrow> key_means env (k, rc) (Typed c)"
| erase: "k = 127 \<or> k = 8 \<Longrightarrow> rc \<noteq> te_KEY_CODE_YES env \<Longrightarrow> key_means env (k, rc) Backspace"
| backspace: "key_means env (te_KEY_BACKSPACE env, te_KEY_CODE_YES env) Backspace"
| left: "key_means env (te_KEY_LEFT env, te_KEY_CODE_YES env) Go_left"
| right: "key_means env (te_KEY_RIGHT env, te_KEY_CODE_YES env) Go_right"

text \<open>The text that the document becomes when all operations under way are done.\<close>

definition projected_text :: "TsClientState \<Rightarrow> string ub" where
  "projected_text st =
     run_ops (\<lambda>op t. ts_apply_operation_to_text (Some t) (Some op)) (all_pending st) (cs_content st)"

definition in_step :: "TerminalClient \<Rightarrow> string list \<Rightarrow> bool" where
  "in_step client cs \<longleftrightarrow> (\<exists>t. projected_text (tc_state client) = Some t \<and> valid_utf8 t \<and> cs = utf8_chars t) \<and>
     projected_sum (tc_state client) = int (length cs) \<and> tc_cursor_pos client \<le> length cs"

lemma run_ops_snoc: "run_ops f (xs @ [x]) s = Option.bind (run_ops f xs s) (f x)"
  by (induction xs arbitrary: s) (simp_all split: option.split)

lemma queue_projected_text:
  assumes "ts_client_state_queue_operation True st op = Some (rc, oid, st', sent)"
    and "projected_text st = Some t" "valid_utf8 t" "good_op op"
  shows "\<exists>t'. projected_text st' = Some t' \<and> valid_utf8 t' \<and> utf8_chars t' = apply_edit (edit_of op) (utf8_chars t)"
  using utf8.apply_chars [OF assms(3,4)] assms(2) queue_operation_pending [OF assms(1)]
  by (simp add: projected_text_def run_ops_snoc)

lemma utf8_char_fits [simp]: "utf8_char u \<Longrightarrow> snprintf_buf TS_MAX_UTF8_CHAR u = u"
  using ts_utf8_char_bytes_bounds(2) [of u] by (auto simp: utf8_char_def ts_sizes intro!: snprintf_buf_fits)

lemma edit_of_init [simp]:
  "utf8_char c \<Longrightarrow> edit_of (ts_operation_init TS_OP_INSERT p (Some c)) = Ins p c"
  "edit_of (ts_operation_init TS_OP_DELETE p ch) = Del p"
  "utf8_char c \<Longrightarrow> good_op (ts_operation_init TS_OP_INSERT p (Some c))"
  "good_op (ts_operation_init TS_OP_DELETE p ch)"
  by (simp_all add: edit_of_def good_op_def)

definition keeps_up :: "TerminalClient \<Rightarrow> TerminalClient \<Rightarrow> bool" where
  "keeps_up client client' \<longleftrightarrow>
     cs_next_op_number (tc_state client') \<le> cs_next_op_number (tc_state client) + 1 \<and>
     tc_cursor_pos client' \<le> tc_cursor_pos client + 1"

lemma insert_in_step:
  assumes "in_step client cs" "utf8_char c" "cs_next_op_number (tc_state client) < c_int_max"
    "Suc (tc_cursor_pos client) < 18446744073709551616"
  shows "\<exists>client' sent cs'. queue_insert client c = Some (client', sent) \<and> in_step client' cs' \<and> keeps_up client client' \<and>
    (cs', tc_cursor_pos client') = editor_step (Typed c) (cs, tc_cursor_pos client)"
proof -
  let ?op = "ts_operation_init TS_OP_INSERT (tc_cursor_pos client) (Some c)"
  obtain oid st' sent where q: "ts_client_state_queue_operation True (tc_state client) ?op = Some (0, oid, st', sent)"
    using queue_operation_defined [OF assms(3)] by blast
  obtain t where t: "projected_text (tc_state client) = Some t" "valid_utf8 t" "cs = utf8_chars t"
    using assms(1) by (auto simp: in_step_def)
  from queue_projected_text [OF q t(1,2)] assms(2) obtain t' where
    "projected_text st' = Some t'" "valid_utf8 t'" "utf8_chars t' = take (tc_cursor_pos client) cs @ c # drop (tc_cursor_pos client) cs"
    using t(3) by auto
  moreover have "projected_sum st' = int (length cs) + 1" using projected_queue [OF q] assms(1) by (simp add: in_step_def)
  ultimately show ?thesis
    using q assms(1,4) queue_operation_pending [OF q]
    by (auto simp: queue_insert_def in_step_def keeps_up_def size_inc_Suc)
qed

lemma delete_in_step:
  assumes "in_step client cs" "cs_next_op_number (tc_state client) < c_int_max"
  shows "\<exists>client' sent cs'. delete_before_cursor client = Some (client', sent) \<and> in_step client' cs' \<and> keeps_up client client' \<and>
    (cs', tc_cursor_pos client') = editor_step Backspace (cs, tc_cursor_pos client)"
proof (cases "tc_cursor_pos client = 0")
  case True
  with assms show ?thesis by (simp add: delete_before_cursor_def keeps_up_def)
next
  case False
  let ?op = "ts_operation_init TS_OP_DELETE (tc_cursor_pos client - 1) None"
  obtain oid st' sent where q: "ts_client_state_queue_operation True (tc_state client) ?op = Some (0, oid, st', sent)"
    using queue_operation_defined [OF assms(2)] by blast
  obtain t where t: "projected_text (tc_state client) = Some t" "valid_utf8 t" "cs = utf8_chars t"
    using assms(1) by (auto simp: in_step_def)
  from queue_projected_text [OF q t(1,2)] False obtain t' where
    "projected_text st' = Some t'" "valid_utf8 t'" "utf8_chars t' = take (tc_cursor_pos client - 1) cs @ drop (tc_cursor_pos client) cs"
    using t(3) by auto
  moreover have "projected_sum st' = int (length cs) - 1" using projected_queue [OF q] assms(1) by (simp add: in_step_def)
  ultimately show ?thesis
    using q assms(1) False queue_operation_pending [OF q]
    by (auto simp: delete_before_cursor_def in_step_def keeps_up_def)
qed

definition curses_keys :: "terminal_env \<Rightarrow> bool" where
  "curses_keys env \<longleftrightarrow> distinct [te_KEY_LEFT env, te_KEY_RIGHT env, te_KEY_BACKSPACE env, 127, 8]"

lemma key_in_step:
  assumes env: "curses_keys env" and means: "key_means env (k, rc) ek" and s: "in_step client cs"
    and n: "cs_next_op_number (tc_state client) < c_int_max" "Suc (tc_cursor_pos client) < 18446744073709551616"
  shows "\<exists>client' sent cs'. handle_key env client k rc = Some (client', sent) \<and> in_step client' cs' \<and>
    keeps_up client client' \<and> (cs', tc_cursor_pos client') = editor_step ek (cs, tc_cursor_pos client)"
  using means
proof cases
  case enter
  then have "handle_key env client k rc = queue_insert client [CHR 0x0A]" by (auto simp: handle_key_def CTRL_Q_def CTRL_S_def)
  moreover have "utf8_char [CHR 0x0A]" by (simp add: utf8_char_ascii is_ascii_def byte_val_def)
  ultimately show ?thesis using insert_in_step [OF s _ n] enter by simp
next
  case (typed c)
  then have "handle_key env client k rc = queue_insert client c" by (auto simp: handle_key_def)
  then show ?thesis using insert_in_step [OF s _ n] typed by simp
next
  case erase
  then have "handle_key env client k rc = delete_before_cursor client" by (auto simp: handle_key_def CTRL_Q_def CTRL_S_def)
  then show ?thesis using delete_in_step [OF s n(1)] erase by simp
next
  case backspace
  then have "handle_key env client k rc = delete_before_cursor client" using env by (auto simp: handle_key_def curses_keys_def)
  then show ?thesis using delete_in_step [OF s n(1)] backspace by simp
next
  case left
  then have "handle_key env client k rc = Some (client\<lparr>tc_cursor_pos := tc_cursor_pos client - 1\<rparr>, [])"
    using env by (auto simp: handle_key_def curses_keys_def)
  then show ?thesis using s left by (auto simp: in_step_def keeps_up_def)
next
  case right
  have "projected_content_length client = length cs" using s by (simp add: in_step_def projected_content_length_def Let_def)
  with right env n have "handle_key env client k rc =
      Some (if tc_cursor_pos client < length cs then client\<lparr>tc_cursor_pos := Suc (tc_cursor_pos client)\<rparr> else client, [])"
    by (auto simp: handle_key_def curses_keys_def size_inc_Suc Let_def)
  then show ?thesis using s right by (auto simp: in_step_def keeps_up_def)
qed

fun press_keys :: "terminal_env \<Rightarrow> (nat \<times> int) list \<Rightarrow> TerminalClient \<Rightarrow> TerminalClient ub" where
  "press_keys env [] client = Some client"
| "press_keys env ((k, rc) # ks) client = do {
     (client, sent) \<leftarrow> handle_key env client k rc;
     press_keys env ks client
   }"

text \<open>C16: the keys edit the text. While the cursor is in the text that the operations under way will
  give, any sequence of keys (characters, line ends, erasing, moving) makes that text and the cursor
  what the editor on characters makes of them; every key is handled without an error.\<close>

theorem keys_edit_the_text:
  assumes "curses_keys env" and "list_all2 (key_means env) ks eks"
    and "in_step client cs"
    and "cs_next_op_number (tc_state client) + int (length ks) \<le> c_int_max"
    and "tc_cursor_pos client + length ks < 2 ^ 64"
  shows "\<exists>client' cs'. press_keys env ks client = Some client' \<and> in_step client' cs' \<and>
    (cs', tc_cursor_pos client') = fold editor_step eks (cs, tc_cursor_pos client)"
  using assms(2-)
proof (induction ks arbitrary: eks client cs)
  case (Cons x ks)
  obtain k rc where x: "x = (k, rc)" by (cases x)
  from Cons.prems(1) x obtain ek eks' where e: "eks = ek # eks'" "key_means env (k, rc) ek" "list_all2 (key_means env) ks eks'"
    by (auto simp: list_all2_Cons1)
  from Cons.prems have "cs_next_op_number (tc_state client) < c_int_max" "Suc (tc_cursor_pos client) < 18446744073709551616" by auto
  from key_in_step [OF assms(1) e(2) Cons.prems(2) this] obtain client1 sent cs1 where
    h: "handle_key env client k rc = Some (client1, sent)" "in_step client1 cs1" "keeps_up client client1"
    "(cs1, tc_cursor_pos client1) = editor_step ek (cs, tc_cursor_pos client)" by blast
  from Cons.IH [OF e(3) h(2)] h(3) Cons.prems(3,4) obtain client' cs' where
    "press_keys env ks client1 = Some client'" "in_step client' cs'"
    "(cs', tc_cursor_pos client') = fold editor_step eks' (cs1, tc_cursor_pos client1)"
    by (auto simp: keeps_up_def)
  with h x e(1) show ?case by auto
qed auto

section \<open>What is drawn\<close>

lemma display_width_nonneg: "0 \<le> utf8_display_width env bytes"
  by (simp add: utf8_display_width_def Let_def split: mb_result.split)

definition on_body :: "terminal_env \<Rightarrow> int \<Rightarrow> int \<Rightarrow> draw \<Rightarrow> bool" where
  \<comment> \<open>between the status line and the help line; a prefix in column 0, a character further right\<close>
  "on_body env height width d =
     (case d of Draw row col s \<Rightarrow> 1 \<le> row \<and> row < height - 1 \<and>
        (if col = 0 then int (length s) \<le> width - 1 else 0 < col \<and> col + utf8_display_width env s \<le> width - 1))"

lemma segment_on_body:
  assumes "d \<in> set (segment_loop env row col line max_cols used)"
    and "1 \<le> row" "row < height - 1" "0 < col" "0 \<le> used" "0 < max_cols \<Longrightarrow> col + max_cols \<le> width - 1"
  shows "on_body env height width d"
  using assms
proof (induction env row col line max_cols used rule: segment_loop.induct)
  case (1 env row col line max_cols used)
  let ?b = "bounded_utf8_char_bytes line (length line)"
  have w: "0 \<le> utf8_display_width env (take ?b line)" by (rule display_width_nonneg)
  from "1.prems"(1) have c: "line \<noteq> []" "used < max_cols" "used + utf8_display_width env (take ?b line) \<le> max_cols"
    and d: "d = Draw row (col + used) (take ?b line) \<or>
      d \<in> set (segment_loop env row col (drop ?b line) max_cols (used + utf8_display_width env (take ?b line)))"
    by (subst (asm) segment_loop.simps; auto simp: Let_def mvaddnstr_def split: if_splits)+
  from d show ?case
  proof
    assume "d = Draw row (col + used) (take ?b line)"
    with c "1.prems" show ?thesis by (auto simp: on_body_def)
  next
    assume "d \<in> set (segment_loop env row col (drop ?b line) max_cols (used + utf8_display_width env (take ?b line)))"
    from "1.IH" [OF _ refl refl _ this] c w "1.prems" show ?thesis by auto
  qed
qed

lemma line_prefix_nonempty: "0 < length (line_prefix number)"
proof -
  have "line_prefix number \<noteq> []" by (simp add: line_prefix_def Let_def snprintf_buf_def)
  then show ?thesis by simp
qed

definition line_draws :: "terminal_env \<Rightarrow> int \<Rightarrow> int \<Rightarrow> int \<Rightarrow> int \<Rightarrow> string \<Rightarrow> int \<Rightarrow> draw list" where
  "line_draws env height width scroll_line line start row =
     (if line \<ge> scroll_line \<and> row < height - 1
      then mvaddnstr row 0 (line_prefix (line + 1)) (width - 1) #
        render_line_segment env row (int (length (line_prefix (line + 1)))) start
          (if width - int (length (line_prefix (line + 1))) - 1 < 0 then 0
           else width - int (length (line_prefix (line + 1))) - 1)
      else [])"

definition row_after :: "int \<Rightarrow> int \<Rightarrow> int \<Rightarrow> int \<Rightarrow> int" where
  "row_after height scroll_line line row = (if line \<ge> scroll_line \<and> row < height - 1 then row + 1 else row)"

lemma lines_loop_eq:
  "lines_loop env height width scroll_line [] start line row = line_draws env height width scroll_line line start row"
  "lines_loop env height width scroll_line (c # p) start line row =
     (if c = CHR 0x0A
      then line_draws env height width scroll_line line start row @
        lines_loop env height width scroll_line p [] (line + 1) (row_after height scroll_line line row)
      else lines_loop env height width scroll_line p (start @ [c]) line row)"
  by (simp_all add: lines_loop.simps [of _ _ _ _ "[]"] lines_loop.simps [of _ _ _ _ "_ # _"] line_draws_def row_after_def Let_def)

lemma line_draws_on_body:
  assumes "d \<in> set (line_draws env height width scroll_line line start row)" and "1 \<le> row" "1 \<le> width"
  shows "on_body env height width d"
proof -
  let ?prefix = "line_prefix (line + 1)"
  from assms(1) have r: "row < height - 1" by (auto simp: line_draws_def split: if_splits)
  from assms(1) consider "d = mvaddnstr row 0 ?prefix (width - 1)" |
    "d \<in> set (segment_loop env row (int (length ?prefix)) start
      (if width - int (length ?prefix) - 1 < 0 then 0 else width - int (length ?prefix) - 1) 0)"
    by (auto simp: line_draws_def render_line_segment_def split: if_splits)
  then show ?thesis
  proof cases
    case 1
    with assms r show ?thesis by (auto simp: mvaddnstr_def on_body_def)
  next
    case 2
    from segment_on_body [OF 2 assms(2) r] line_prefix_nonempty [of "line + 1"] show ?thesis by (auto split: if_splits)
  qed
qed

lemma lines_on_body:
  "d \<in> set (lines_loop env height width scroll_line p start line row) \<Longrightarrow> 1 \<le> row \<Longrightarrow> 1 \<le> width \<Longrightarrow>
    on_body env height width d"
proof (induction p arbitrary: start line row)
  case (Cons c p)
  then show ?case
    by (auto simp: lines_loop_eq row_after_def intro: line_draws_on_body split: if_splits)
qed (auto simp: lines_loop_eq intro: line_draws_on_body)

lemma count_newlines_add: "count_newlines t n = n + count_newlines t 0"
proof (induction t arbitrary: n)
  case (Cons c t)
  show ?case using Cons [of "n + 1"] Cons [of n] Cons [of 1] by simp
qed simp

lemma count_newlines_nonneg: "0 \<le> count_newlines t 0"
proof (induction t)
  case (Cons c t)
  then show ?case using count_newlines_add [of t 1] by simp
qed simp

lemma count_newlines_take: "count_newlines (take n t) 0 \<le> count_newlines t 0"
proof (induction t arbitrary: n)
  case (Cons c t)
  then show ?case
    using count_newlines_add [of t 1] count_newlines_add [of "take (n - 1) t" 1] count_newlines_nonneg [of "c # t"]
    by (cases n) (auto simp del: )
qed simp

lemma line_drawn_here:
  "scroll_line \<le> l \<Longrightarrow> l - scroll_line + 1 < height - 1 \<Longrightarrow> row = l - scroll_line + 1 \<Longrightarrow>
    mvaddnstr (l - scroll_line + 1) 0 (line_prefix (l + 1)) (width - 1) \<in>
      set (line_draws env height width scroll_line l start row)"
  by (simp add: line_draws_def)

lemma line_drawn:
  assumes "scroll_line \<le> l" "line \<le> l" "l \<le> line + count_newlines p 0" "l - scroll_line + 1 < height - 1"
    and "row = 1 + max 0 (line - scroll_line)"
  shows "mvaddnstr (l - scroll_line + 1) 0 (line_prefix (l + 1)) (width - 1) \<in>
    set (lines_loop env height width scroll_line p start line row)"
  using assms
proof (induction p arbitrary: start line row)
  case Nil
  then have "line = l" by simp
  with Nil line_drawn_here [of scroll_line l height row] show ?case by (simp add: lines_loop_eq)
next
  case (Cons c p)
  show ?case
  proof (cases "c = CHR 0x0A")
    case True
    show ?thesis
    proof (cases "line = l")
      case True
      with Cons.prems \<open>c = CHR 0x0A\<close> line_drawn_here [of scroll_line l height row] show ?thesis
        by (simp add: lines_loop_eq)
    next
      case False
      with Cons.prems have "row_after height scroll_line line row = 1 + max 0 (line + 1 - scroll_line)"
        by (auto simp: row_after_def)
      with Cons.IH [of "line + 1" "row_after height scroll_line line row"] Cons.prems False True
        count_newlines_add [of p 1]
      show ?thesis by (simp add: lines_loop_eq)
    qed
  next
    case False
    with Cons show ?thesis by (simp add: lines_loop_eq)
  qed
qed

lemma scroll_to_visible:
  "3 \<le> height \<Longrightarrow> 0 \<le> l \<Longrightarrow> 0 \<le> scroll_line \<Longrightarrow>
    0 \<le> scroll_to l height scroll_line \<and> scroll_to l height scroll_line \<le> l \<and> l < scroll_to l height scroll_line + height - 2"
  by (auto simp: scroll_to_def Let_def)

text \<open>C31: whatever the document and the size of the window (three lines at least), everything
  \<open>render_lines\<close> draws lies between the status line and the help line and ends before the last
  column, and the line of the cursor is drawn, in the row where \<open>render\<close> puts the cursor.\<close>

theorem drawing_stays_on_screen:
  assumes "render_lines env height width client = Some (drawn, client')"
    and "3 \<le> height" "1 \<le> width" "0 \<le> tc_scroll_line client"
  shows "list_all (on_body env height width) drawn \<and> 0 \<le> tc_scroll_line client' \<and>
    (\<exists>l. line_for_pos (cs_content (tc_state client)) (tc_cursor_pos client) = Some l \<and>
      Draw (l - tc_scroll_line client' + 1) 0 (take (nat (width - 1)) (line_prefix (l + 1))) \<in> set drawn)"
proof -
  let ?content = "cs_content (tc_state client)"
  from assms(1) obtain l where l: "line_for_pos ?content (tc_cursor_pos client) = Some l"
    and r: "drawn = lines_loop env height width (scroll_to l height (tc_scroll_line client)) ?content [] 0 1"
      "tc_scroll_line client' = scroll_to l height (tc_scroll_line client)"
    by (auto simp: render_lines_def Let_def split: bind_splits)
  from l obtain n where "l = count_newlines (take n ?content) 0" by (auto simp: line_for_pos_def split: bind_splits)
  then have b: "0 \<le> l" "l \<le> count_newlines ?content 0" by (simp_all add: count_newlines_nonneg count_newlines_take)
  note v = scroll_to_visible [OF assms(2) b(1) assms(4)]
  have "mvaddnstr (l - tc_scroll_line client' + 1) 0 (line_prefix (l + 1)) (width - 1) \<in> set drawn"
    unfolding r by (rule line_drawn) (use v b in auto)
  with l v r lines_on_body [of _ env height width] assms(3) show ?thesis
    by (auto simp: list_all_iff mvaddnstr_def)
qed

text \<open>C40: the projected length counts a deletion under way although its character may be gone already.
  When somebody else has emptied the document while a deletion is in flight, a character typed then
  leaves the cursor behind it, but the next message moves the cursor in front of it again.\<close>

theorem late_delete_moves_cursor_back:
  assumes "cs_content (tc_state client) = []" and "tc_cursor_pos client = 0"
    and "cs_has_inflight (tc_state client)" and "op_kind (po_op (cs_inflight (tc_state client))) = TS_OP_DELETE"
    and "cs_queue (tc_state client) = []" and "cs_next_op_number (tc_state client) < c_int_max"
    and "utf8_char c"
  shows "\<exists>client' sent. queue_insert client c = Some (client', sent) \<and>
    projected_text (tc_state client') = Some c \<and> tc_cursor_pos client' = 1 \<and>
    tc_cursor_pos (clamp_cursor_to_projected_content client') = 0"
proof -
  let ?op = "ts_operation_init TS_OP_INSERT (tc_cursor_pos client) (Some c)"
  obtain oid st' sent where q: "ts_client_state_queue_operation True (tc_state client) ?op = Some (0, oid, st', sent)"
    using queue_operation_defined [OF assms(6)] by blast
  have del: "good_op (po_op (cs_inflight (tc_state client)))" using assms(4) by (simp add: good_op_def)
  have "projected_text (tc_state client) = Some []"
    using apply_to_chars [of "[]", OF _ del] assms(1,3-5) by (simp add: projected_text_def all_pending_def)
  from queue_projected_text [OF q this] assms(2,7) obtain t where
    t: "projected_text st' = Some t" "utf8_chars t = [c]" by auto
  then have "t = c" using concat_utf8_chars [of t] by simp
  moreover have "projected_sum st' = 0"
    using projected_queue [OF q] assms by (simp add: projected_sum_eq all_pending_def pending_operation_delta_def)
  ultimately show ?thesis using q t assms(2)
    by (simp add: queue_insert_def size_inc_def clamp_cursor_to_projected_content_def projected_content_length_def Let_def)
qed

section \<open>Concrete instances\<close>

definition demo_env :: terminal_env where
  "demo_env = \<lparr>te_mbrtowc = (\<lambda>bytes. case bytes of [] \<Rightarrow> Null_char | c # _ \<Rightarrow> Wide_char (of_char c)),
     te_wcwidth = (\<lambda>_. 1), te_iswprint = (\<lambda>k. 32 \<le> k \<and> k < 127), te_wcrtomb = (\<lambda>k. Some [char_of k]),
     te_KEY_CODE_YES = 256, te_KEY_LEFT = 260, te_KEY_RIGHT = 261, te_KEY_BACKSPACE = 263\<rparr>"

definition demo_client :: TerminalClient where
  "demo_client = fst (client_main_init [] 3)"

definition demo_incoming :: "TsMessage list" where
  "demo_incoming =
     [ts_message_init\<lparr>msg_type := ''DOC_STATE'', msg_content := Some ''ab'', msg_version := 3\<rparr>,
      ts_message_init\<lparr>msg_type := ''SAVE_QUEUED'', msg_version := 3\<rparr>]"

lemma demo_client_simps [simp]:
  "cs_content (tc_state demo_client) = []" "tc_cursor_pos demo_client = 0" "tc_scroll_line demo_client = 0"
  "cs_has_inflight (tc_state demo_client) = False" "cs_queue (tc_state demo_client) = []"
  "cs_next_op_number (tc_state demo_client) = 1" "cs_send_fn (tc_state demo_client)"
  by (simp_all add: demo_client_def client_main_init_def Let_def ts_client_state_init_def zero_client_state_def)

lemma demo_in_step: "in_step demo_client []"
  by (simp add: in_step_def projected_text_def all_pending_def projected_sum_eq)

lemma incoming_messages_handled_in_order_example:
  "\<exists>client' sent. drain_messages (demo_client\<lparr>tc_incoming := fold push_message demo_incoming queue_init\<rparr>) =
      Some (client', sent) \<and>
    cs_content (tc_state client') = ''ab'' \<and> cs_version (tc_state client') = 3 \<and>
    tc_cursor_pos client' \<le> projected_content_length client'"
proof -
  let ?c = "demo_client\<lparr>tc_incoming := fold push_message demo_incoming queue_init\<rparr>"
  obtain st' sent where "handle_all (tc_state ?c) demo_incoming = Some (st', sent)" "cs_content st' = ''ab''" "cs_version st' = 3"
    by (simp add: demo_incoming_def ts_client_state_handle_message_def ts_client_state_set_document_def pump_idle)
  with incoming_messages_handled_in_order [of ?c demo_incoming st' sent] show ?thesis
    by (auto simp: demo_incoming_def)
qed

lemma demo_env_simps [simp]:
  "te_KEY_CODE_YES demo_env = 256" "te_KEY_LEFT demo_env = 260" "te_KEY_BACKSPACE demo_env = 263"
  "te_iswprint demo_env k \<longleftrightarrow> 32 \<le> k \<and> k < 127" "te_wcrtomb demo_env k = Some [char_of k]"
  by (auto simp: demo_env_def)

theorem keys_edit_the_text_witness:
  "\<exists>client'. press_keys demo_env [(104, 0), (105, 0), (260, 256), (127, 0)] demo_client = Some client' \<and>
    in_step client' [''i''] \<and> tc_cursor_pos client' = 0"
proof -
  have "key_means demo_env (104, 0) (Typed ''h'')" "key_means demo_env (105, 0) (Typed ''i'')"
    by (rule typed; simp add: CTRL_Q_def CTRL_S_def utf8_char_ascii is_ascii_def byte_val_def char_of_def bit_numeral_rec bit_0)+
  moreover have "key_means demo_env (260, 256) Go_left" using left [of demo_env] by simp
  moreover have "key_means demo_env (127, 0) Backspace" by (rule erase) simp_all
  ultimately have "list_all2 (key_means demo_env) [(104, 0), (105, 0), (260, 256), (127, 0)]
      [Typed ''h'', Typed ''i'', Go_left, Backspace]" by simp
  from keys_edit_the_text [OF _ this demo_in_step] show ?thesis
    by (simp add: curses_keys_def demo_env_def c_int_max_def)
qed

theorem drawing_stays_on_screen_witness:
  "\<exists>drawn client'. render_lines demo_env 24 80 demo_client = Some (drawn, client') \<and>
    list_all (on_body demo_env 24 80) drawn \<and> drawn \<noteq> []"
proof -
  obtain drawn client' where r: "render_lines demo_env 24 80 demo_client = Some (drawn, client')"
    by (simp add: render_lines_def line_for_pos_def ts_utf8_byte_offset_def Let_def utf8_offset_loop.simps)
  from drawing_stays_on_screen [OF this] r show ?thesis by (auto simp: )
qed

theorem late_delete_moves_cursor_back_witness:
  "\<exists>client' sent. queue_insert
      (demo_client\<lparr>tc_state := (tc_state demo_client)\<lparr>cs_has_inflight := True,
         cs_inflight := zero_pending\<lparr>po_op := ts_operation_init TS_OP_DELETE 0 None\<rparr>\<rparr>\<rparr>) ''a'' = Some (client', sent) \<and>
    projected_text (tc_state client') = Some ''a'' \<and> tc_cursor_pos client' = 1 \<and>
    tc_cursor_pos (clamp_cursor_to_projected_content client') = 0"
  by (rule late_delete_moves_cursor_back)
    (simp_all add: c_int_max_def utf8_char_ascii is_ascii_def byte_val_def)

end
