(* ===== verification/System_Once.thy ===== *)
theory System_Once
  imports System_Correct
begin

text \<open>
  What users type is applied exactly once. A log beside the system records what is typed on each
  connection; an invariant relates it to the server's history, the channel to the server and the
  client's queue.
\<close>

section \<open>What was typed\<close>

text \<open>A log beside the system: the operations typed on each connection since it was made, and the length the
  history had then.\<close>

record typing_log =
  tl_typed :: "nat \<Rightarrow> TsOperation list"
  tl_from :: "nat \<Rightarrow> nat"

definition history_length :: "system \<Rightarrow> nat" where
  "history_length s = length (doc_history (sv_document (sys_server s)))"

definition log_event :: "sys_event \<Rightarrow> system \<Rightarrow> typing_log \<Rightarrow> typing_log" where
  "log_event e s l =
     (case e of
        Join i cid address \<Rightarrow>
          if conn_of (sys_server s) i \<noteq> None then l
          else l\<lparr>tl_typed := (tl_typed l)(i := []), tl_from := (tl_from l)(i := history_length s)\<rparr>
      | TypeKey i op \<Rightarrow>
          if conn_of (sys_server s) i = None \<or> \<not> sys_ready s i then l
          else l\<lparr>tl_typed := (tl_typed l)(i := tl_typed l i @ [op])\<rparr>
      | _ \<Rightarrow> l)"

definition logged_step :: "sys_event \<Rightarrow> system \<times> typing_log \<Rightarrow> (system \<times> typing_log) option" where
  "logged_step e sl = map_option (\<lambda>s'. (s', log_event e (fst sl) (snd sl))) (sys_step e (fst sl))"

definition empty_log :: typing_log where
  "empty_log = \<lparr>tl_typed = (\<lambda>_. []), tl_from = (\<lambda>_. 0)\<rparr>"

text \<open>What the server has applied of a client, as the client sent it, since it joined.\<close>

definition applied_of :: "TsHistoryEntry list \<Rightarrow> nat \<Rightarrow> string \<Rightarrow> TsOperation list" where
  "applied_of history from cid = map he_original_op (filter (\<lambda>e. he_client_id e = cid) (drop from history))"

definition applied :: "system \<Rightarrow> typing_log \<Rightarrow> TsClientConnection \<Rightarrow> TsOperation list" where
  "applied s l c = applied_of (doc_history (sv_document (sys_server s))) (tl_from l (cn_fd c)) (cn_client_id c)"

text \<open>What is still on its way to the server: the request in the channel, then the queue.\<close>

definition on_its_way :: "TsClientState \<Rightarrow> TsMessage list \<Rightarrow> TsOperation list" where
  "on_its_way st up = map msg_op (requests up) @ map po_op (cs_queue st)"

definition once_inv :: "system \<Rightarrow> typing_log \<Rightarrow> bool" where
  "once_inv s l \<longleftrightarrow> (\<forall>c \<in> set (sv_clients (sys_server s)).
     length (cn_client_id c) < TS_MAX_CLIENT_ID \<and> tl_from l (cn_fd c) \<le> history_length s \<and>
     tl_typed l (cn_fd c) = applied s l c @ on_its_way (sys_client s (cn_fd c)) (sys_up s (cn_fd c)))"

lemma applied_of_snoc:
  "from \<le> length history \<Longrightarrow> applied_of (history @ [e]) from cid =
    applied_of history from cid @ (if he_client_id e = cid then [he_original_op e] else [])"
  by (simp add: applied_of_def)

lemma applied_of_new [simp]: "applied_of history (length history) cid = []"
  by (simp add: applied_of_def)

section \<open>A client passes on what is in its queue\<close>

lemma pump_passes_on: "on_its_way (fst (state_pump u)) (up @ snd (state_pump u)) = on_its_way u up"
  by (cases rule: pump_cases [of u]) (auto simp: on_its_way_def op_message_def)

lemma queue_passes_on:
  assumes "ts_client_state_queue_operation True st op = Some (rc, oid, st', sent)"
  shows "on_its_way st' (up @ sent) = on_its_way st up @ [op]"
proof -
  from assms have "st' = fst (state_pump (queued_state st op))" "sent = snd (state_pump (queued_state st op))"
    by (auto simp: queue_operation_eq split: if_splits)
  then show ?thesis using pump_passes_on [of "queued_state st op" up] by (simp add: on_its_way_def)
qed

lemma handle_passes_on:
  assumes "ts_client_state_handle_message st m = Some (st', sent)"
  shows "on_its_way st' (up @ sent) = on_its_way st up"
  using assms
proof (cases rule: handle_cases)
  case quiet
  then have "requests sent = []" by (simp add: op_ids_def requests_def)
  with quiet(1) show ?thesis by (simp add: on_its_way_def keeps_def)
next
  case (pumped t)
  have "on_its_way t up = on_its_way st up" using pumped(1) by (simp add: on_its_way_def keeps_def)
  with pump_passes_on [of t up] pumped(3) [symmetric] show ?thesis by simp
qed

section \<open>The server takes an operation over from the channel\<close>

lemma once_invD:
  assumes "once_inv s l" and "conn_of (sys_server s) i = Some c"
  shows "c \<in> set (sv_clients (sys_server s))" "cn_fd c = i" "length (cn_client_id c) < TS_MAX_CLIENT_ID"
    "tl_from l i \<le> history_length s"
    "tl_typed l i = applied s l c @ on_its_way (sys_client s i) (sys_up s i)"
  using assms conn_of_Some [OF assms(2)] by (auto simp: once_inv_def)

text \<open>A step that concerns one connection and not the history.\<close>

lemma once_inv_one:
  assumes "once_inv s l" and "sys_server s' = sys_server s"
    and "\<And>j. j \<noteq> i \<Longrightarrow> sys_client s' j = sys_client s j \<and> sys_up s' j = sys_up s j \<and> tl_typed l' j = tl_typed l j"
    and "tl_from l' = tl_from l"
    and "\<And>c. conn_of (sys_server s) i = Some c \<Longrightarrow>
      tl_typed l' i = applied s l c @ on_its_way (sys_client s' i) (sys_up s' i)"
    and "distinct (map cn_fd (sv_clients (sys_server s)))"
  shows "once_inv s' l'"
  unfolding once_inv_def
proof
  fix c assume "c \<in> set (sv_clients (sys_server s'))"
  then have c: "c \<in> set (sv_clients (sys_server s))" by (simp add: assms(2))
  have same: "applied s' l' c = applied s l c" "history_length s' = history_length s"
    by (simp_all add: applied_def history_length_def assms(2,4))
  have typed: "tl_typed l' (cn_fd c) = applied s l c @ on_its_way (sys_client s' (cn_fd c)) (sys_up s' (cn_fd c))"
  proof (cases "cn_fd c = i")
    case True
    have "conn_of (sys_server s) i = Some c"
    proof -
      from c True obtain d where d: "conn_of (sys_server s) i = Some d"
        using conn_of_None [of "sys_server s" i] by (cases "conn_of (sys_server s) i") auto
      with conn_of_Some [OF d] c True assms(6) show ?thesis by (auto simp: distinct_map inj_on_def)
    qed
    from assms(5) [OF this] True show ?thesis by simp
  next
    case False
    with assms(1,3) c show ?thesis by (simp add: once_inv_def)
  qed
  with assms(1) c same assms(4) show "length (cn_client_id c) < TS_MAX_CLIENT_ID \<and> tl_from l' (cn_fd c) \<le> history_length s' \<and>
      tl_typed l' (cn_fd c) = applied s' l' c @ on_its_way (sys_client s' (cn_fd c)) (sys_up s' (cn_fd c))"
    by (simp add: once_inv_def)
qed

text \<open>What the server does with the request of a client in order.\<close>

lemma request_recorded:
  assumes inv: "sys_inv n L xs s" and m: "sys_up s i = m # rest" "msg_type m = ''OP''"
    and c: "conn_of (sys_server s) i = Some c" and room: "n < L" "int n + 2 < c_int_max"
    and step: "sys_server_reads i s = Some s'"
  shows "\<exists>e. doc_history (sv_document (sys_server s')) = doc_history (sv_document (sys_server s)) @ [e] \<and>
    he_client_id e = snprintf_buf TS_MAX_CLIENT_ID (cn_client_id c) \<and> he_original_op e = msg_op m \<and>
    sv_clients (sys_server s') = sv_clients (sys_server s) \<and> sys_client s' = sys_client s \<and>
    sys_up s' = (sys_up s)(i := rest)"
proof -
  let ?doc = "sv_document (sys_server s)"
  let ?H = "history_ops ?doc"
  from conn_of_Some [OF c] have c': "c \<in> set (sv_clients (sys_server s))" "cn_fd c = i" by auto
  from inv have doc: "doc_inv L xs ?doc" "length ?H \<le> n" by (auto simp: sys_inv_def server_inv_def)
  have "client_inv n ?H xs (sys_client s i) (m # rest) (sys_down s i) (sys_ready s i)"
    using inv c' m by (auto simp: sys_inv_def clients_inv_def)
  then have "request_ok ?H (msg_op_id m) m" using m(2)
    by (auto simp: client_inv_def under_way_def request_ok_def split: if_splits)
  then have req: "msg_has_op m" "key_op (msg_op m)" "0 \<le> msg_base_version m" "msg_base_version m \<le> doc_version ?doc"
    by (simp_all add: request_ok_def doc_inv_facts(1) [OF doc(1)])
  have len: "length ?H < L" "int (length ?H) < c_int_max" using doc(2) room by linarith+
  from accept_step [OF doc(1) req(2-4) len, of "cn_client_id c" "msg_op_id m"] obtain t where
    p: "ts_document_process_operation ?doc (cn_client_id c) (msg_op_id m) (msg_base_version m) (Some (msg_op m)) =
      Some (accept_result ?doc (cn_client_id c) (msg_op_id m) (msg_base_version m) (msg_op m) t,
        accept_doc ?doc (cn_client_id c) (msg_op_id m) (msg_base_version m) (msg_op m) t)" by blast
  have "length (doc_history ?doc) \<noteq> doc_history_limit ?doc"
    using doc(1) len(1) by (simp add: doc_inv_def history_ops_def)
  then have hist: "doc_history (accept_doc ?doc (cn_client_id c) (msg_op_id m) (msg_base_version m) (msg_op m) t) =
      doc_history ?doc @ [accept_entry ?doc (cn_client_id c) (msg_op_id m) (msg_base_version m) (msg_op m)]"
    by (simp add: accept_doc_history)
  have "res_status (accept_result ?doc (cn_client_id c) (msg_op_id m) (msg_base_version m) (msg_op m) t) = TS_PROCESS_OK"
    by (simp add: accept_result_def)
  with step m c req(1) p hist show ?thesis
    by (auto simp: sys_server_reads_def dispatch_message_def Let_def accept_entry_def)
qed

lemma save_not_recorded:
  assumes "sys_up s i = m # rest" "msg_type m = ''SAVE''" "conn_of (sys_server s) i = Some c"
    and "sys_server_reads i s = Some s'"
  shows "sys_server s' = sys_server s \<and> sys_client s' = sys_client s \<and> sys_up s' = (sys_up s)(i := rest)"
  using assms by (auto simp: sys_server_reads_def dispatch_message_def Let_def)

section \<open>Every step keeps the log right\<close>

lemma once_type:
  assumes once: "once_inv s l" and fds: "distinct (map cn_fd (sv_clients (sys_server s)))"
    and step: "sys_type i op s = Some s'"
  shows "once_inv s' (log_event (TypeKey i op) s l)"
proof (cases "conn_of (sys_server s) i = None \<or> \<not> sys_ready s i")
  case True
  with step once show ?thesis by (auto simp: sys_type_def log_event_def)
next
  case False
  with step obtain rc oid st sent where q: "ts_client_state_queue_operation True (sys_client s i) op = Some (rc, oid, st, sent)"
    and s': "s' = s\<lparr>sys_client := (sys_client s)(i := st), sys_up := (sys_up s)(i := sys_up s i @ sent)\<rparr>"
    by (auto simp: sys_type_def split: bind_splits)
  show ?thesis
    by (rule once_inv_one [OF once _ _ _ _ fds, of _ i])
      (use False queue_passes_on [OF q, of "sys_up s i"] once_invD(5) [OF once] in \<open>auto simp: s' log_event_def\<close>)
qed

lemma once_save:
  assumes once: "once_inv s l" and fds: "distinct (map cn_fd (sv_clients (sys_server s)))"
    and step: "sys_save i s = Some s'"
  shows "once_inv s' (log_event (SaveKey i) s l)"
proof (cases "conn_of (sys_server s) i")
  case None
  with step once show ?thesis by (simp add: sys_save_def log_event_def)
next
  case (Some c)
  have "on_its_way st (up @ [save_message]) = on_its_way st up" for st up
    by (simp add: on_its_way_def save_message_def ts_sizes snprintf_buf_def)
  with Some step show ?thesis
    by (intro once_inv_one [OF once _ _ _ _ fds, of _ i]) (use once_invD(5) [OF once] in \<open>auto simp: sys_save_def log_event_def\<close>)
qed

lemma once_client_reads:
  assumes once: "once_inv s l" and fds: "distinct (map cn_fd (sv_clients (sys_server s)))"
    and step: "sys_client_reads i s = Some s'"
  shows "once_inv s' (log_event (ClientReads i) s l)"
proof (cases "sys_down s i = [] \<or> conn_of (sys_server s) i = None")
  case True
  with step once show ?thesis by (auto simp: sys_client_reads_def log_event_def split: list.splits option.splits)
next
  case False
  then obtain m rest c where m: "sys_down s i = m # rest" and c: "conn_of (sys_server s) i = Some c"
    by (cases "sys_down s i") auto
  with step obtain st sent where h: "ts_client_state_handle_message (sys_client s i) (arrive m) = Some (st, sent)"
    and s': "sys_server s' = sys_server s" "sys_client s' = (sys_client s)(i := st)" "sys_up s' = (sys_up s)(i := sys_up s i @ sent)"
    by (auto simp: sys_client_reads_def split: bind_splits)
  show ?thesis
    by (rule once_inv_one [OF once s'(1) _ _ _ fds, of i])
      (use handle_passes_on [OF h, of "sys_up s i"] once_invD(5) [OF once] s' in \<open>auto simp: log_event_def\<close>)
qed

lemma once_server_reads:
  assumes inv: "sys_inv n L xs s" and once: "once_inv s l" and room: "n < L" "int n + 2 < c_int_max"
    and step: "sys_server_reads i s = Some s'"
  shows "once_inv s' (log_event (ServerReads i) s l)"
proof (cases "sys_up s i = [] \<or> conn_of (sys_server s) i = None")
  case True
  with step once show ?thesis by (auto simp: sys_server_reads_def log_event_def split: list.splits option.splits)
next
  case False
  then obtain m rest c where m: "sys_up s i = m # rest" and c: "conn_of (sys_server s) i = Some c"
    by (cases "sys_up s i") auto
  from inv have ids: "distinct (client_ids (sys_server s))" and fds: "distinct (map cn_fd (sv_clients (sys_server s)))"
    by (auto simp: sys_inv_def server_inv_def)
  have "client_inv n (history_ops (sv_document (sys_server s))) xs (sys_client s i) (m # rest) (sys_down s i) (sys_ready s i)"
    using inv conn_of_Some [OF c] m by (auto simp: sys_inv_def clients_inv_def)
  then consider "msg_type m = ''SAVE''" | "msg_type m = ''OP''" by (auto simp: client_inv_def)
  then show ?thesis
  proof cases
    case 1
    from save_not_recorded [OF m 1 c step] have s': "sys_server s' = sys_server s" "sys_client s' = sys_client s"
      "sys_up s' = (sys_up s)(i := rest)" by auto
    show ?thesis
      by (rule once_inv_one [OF once s'(1) _ _ _ fds, of i])
        (use s' m 1 once_invD(5) [OF once c] c in \<open>auto simp: log_event_def on_its_way_def\<close>)
  next
    case 2
    from request_recorded [OF inv m 2 c room step] obtain e where
      e: "doc_history (sv_document (sys_server s')) = doc_history (sv_document (sys_server s)) @ [e]"
        "he_client_id e = cn_client_id c" "he_original_op e = msg_op m"
      and s': "sv_clients (sys_server s') = sv_clients (sys_server s)" "sys_client s' = sys_client s"
        "sys_up s' = (sys_up s)(i := rest)"
      using once_invD(3) [OF once c] by auto
    have l: "log_event (ServerReads i) s l = l" by (simp add: log_event_def)
    show ?thesis
      unfolding once_inv_def l
    proof
      fix d assume "d \<in> set (sv_clients (sys_server s'))"
      then have d: "d \<in> set (sv_clients (sys_server s))" by (simp add: s'(1))
      with once have o: "length (cn_client_id d) < TS_MAX_CLIENT_ID" "tl_from l (cn_fd d) \<le> history_length s"
        "tl_typed l (cn_fd d) = applied s l d @ on_its_way (sys_client s (cn_fd d)) (sys_up s (cn_fd d))"
        by (auto simp: once_inv_def)
      have same: "cn_client_id d = cn_client_id c \<longleftrightarrow> cn_fd d = i"
        using d conn_of_Some [OF c] ids fds by (auto simp: client_ids_def distinct_map inj_on_def)
      have "applied s' l d = applied s l d @ (if cn_fd d = i then [msg_op m] else [])"
        using o(2) e same by (auto simp: applied_def applied_of_snoc history_length_def)
      with o e s' m 2 show "length (cn_client_id d) < TS_MAX_CLIENT_ID \<and> tl_from l (cn_fd d) \<le> history_length s' \<and>
          tl_typed l (cn_fd d) = applied s' l d @ on_its_way (sys_client s' (cn_fd d)) (sys_up s' (cn_fd d))"
        by (auto simp: on_its_way_def history_length_def)
    qed
  qed
qed

lemma unlink_subset: "set (unlink_client cid cs) \<subseteq> set cs"
  by (induction cs) auto

lemma once_leave:
  assumes once: "once_inv s l" and fds: "distinct (map cn_fd (sv_clients (sys_server s)))"
    and ids: "distinct (client_ids (sys_server s))" and step: "sys_leave i s = Some s'"
  shows "once_inv s' (log_event (Leave i) s l)"
proof (cases "conn_of (sys_server s) i")
  case None
  with step once show ?thesis by (simp add: sys_leave_def log_event_def)
next
  case (Some c)
  with step have s': "sys_server s' = unregister_client (sys_server s) (cn_client_id c)" "sys_client s' = sys_client s"
    "sys_up s' = (sys_up s)(i := [])"
    by (auto simp: sys_leave_def client_thread_leave_def)
  have other: "d \<in> set (sv_clients (sys_server s)) \<and> cn_fd d \<noteq> i" if "d \<in> set (sv_clients (sys_server s'))" for d
    using that ids fds conn_of_Some [OF Some]
    by (auto simp: s' unregister_client_def unlink_filter client_ids_def distinct_map inj_on_def)
  from other once show ?thesis
    by (auto simp: once_inv_def log_event_def s' applied_def history_length_def unregister_client_def)
qed

lemma once_join:
  assumes inv: "sys_inv n L xs s" and once: "once_inv s l" and room: "int n + 2 < c_int_max"
    and step: "sys_join i cid address s = Some s'"
  shows "once_inv s' (log_event (Join i cid address) s l)"
proof (cases "conn_of (sys_server s) i = None")
  case False
  with step once show ?thesis by (simp add: sys_join_def log_event_def)
next
  case True
  let ?srv = "sys_server s" and ?conn = "\<lparr>cn_fd = i, cn_client_id = [], cn_address = address\<rparr>"
  let ?m = "arrive (join_message cid)"
  from inv have num: "0 \<le> sv_next_client_number ?srv" and idr: "id_room ?srv \<le> int n + 1"
    by (auto simp: sys_inv_def server_inv_def)
  have m: "msg_type ?m = ''JOIN''" "length (msg_client_id ?m) < TS_MAX_CLIENT_ID"
    by (simp_all add: join_message_def snprintf_buf_def ts_sizes)
  from idr room have "id_room ?srv < c_int_max" by simp
  from hello_join [OF num this m, of ?conn] obtain out k es where
    h: "client_thread_hello ?srv ?conn (Some ?m) = Some (True, ?conn\<lparr>cn_client_id := out\<rparr>, es,
        register_client (?srv\<lparr>sv_next_client_number := k\<rparr>) (?conn\<lparr>cn_client_id := out\<rparr>))"
    and out: "length out < TS_MAX_CLIENT_ID" by metis
  from step True h have s': "sys_server s' = register_client (?srv\<lparr>sv_next_client_number := k\<rparr>) (?conn\<lparr>cn_client_id := out\<rparr>)"
    "sys_client s' = (sys_client s)(i := ts_client_state_init (Some cid) True)" "sys_up s' = (sys_up s)(i := [])"
    by (auto simp: sys_join_def)
  have l: "log_event (Join i cid address) s l =
      l\<lparr>tl_typed := (tl_typed l)(i := []), tl_from := (tl_from l)(i := history_length s)\<rparr>"
    using True by (simp add: log_event_def)
  have doc: "sv_document (sys_server s') = sv_document ?srv" by (simp add: s' register_client_def)
  have new: "on_its_way (ts_client_state_init (Some cid) True) [] = []"
    by (simp add: on_its_way_def ts_client_state_init_def zero_client_state_def)
  have old: "cn_fd d \<noteq> i" if "d \<in> set (sv_clients ?srv)" for d using True that by (auto simp: conn_of_None)
  show ?thesis
    unfolding once_inv_def l
  proof
    fix d assume "d \<in> set (sv_clients (sys_server s'))"
    then consider "d = ?conn\<lparr>cn_client_id := out\<rparr>" | "d \<in> set (sv_clients ?srv)" by (auto simp: s' register_client_def)
    then show "length (cn_client_id d) < TS_MAX_CLIENT_ID \<and>
        tl_from (l\<lparr>tl_typed := (tl_typed l)(i := []), tl_from := (tl_from l)(i := history_length s)\<rparr>) (cn_fd d) \<le> history_length s' \<and>
        tl_typed (l\<lparr>tl_typed := (tl_typed l)(i := []), tl_from := (tl_from l)(i := history_length s)\<rparr>) (cn_fd d) =
        applied s' (l\<lparr>tl_typed := (tl_typed l)(i := []), tl_from := (tl_from l)(i := history_length s)\<rparr>) d @
          on_its_way (sys_client s' (cn_fd d)) (sys_up s' (cn_fd d))"
    proof cases
      case 1
      with out new show ?thesis by (simp add: s'(2,3) applied_def doc history_length_def)
    next
      case 2
      with once old [OF 2] show ?thesis by (simp add: once_inv_def s'(2,3) applied_def doc history_length_def)
    qed
  qed
qed

lemma once_step:
  assumes "sys_inv n L xs s" and "once_inv s l" and "n < L" "int n + 2 < c_int_max" and "sys_step e s = Some s'"
  shows "once_inv s' (log_event e s l)"
proof -
  from assms(1) have d: "distinct (map cn_fd (sv_clients (sys_server s)))" "distinct (client_ids (sys_server s))"
    by (auto simp: sys_inv_def server_inv_def)
  from assms(5) show ?thesis
    using once_join [OF assms(1,2,4)] once_leave [OF assms(2) d] once_type [OF assms(2) d(1)] once_save [OF assms(2) d(1)]
      once_server_reads [OF assms(1-4)] once_client_reads [OF assms(2) d(1)]
    by (cases e) (auto simp: sys_step_def)
qed

lemma logged_run:
  assumes "sys_inv n L xs s" and "once_inv s l" and "list_all ok_event es" and "n + length es \<le> L" and "int L + 1 < c_int_max"
  shows "\<exists>s' l'. run_ops logged_step es (s, l) = Some (s', l') \<and> run_ops sys_step es s = Some s' \<and> once_inv s' l'"
  using assms
proof (induction es arbitrary: n s l)
  case (Cons e es)
  then have room: "n < L" "int n + 2 < c_int_max" by auto
  from sys_step_inv [OF Cons.prems(1) _ room] Cons.prems(3) obtain s1 where
    s1: "sys_step e s = Some s1" "sys_inv (Suc n) L xs s1" by auto
  from Cons.IH [OF s1(2) once_step [OF Cons.prems(1,2) room s1(1)]] Cons.prems(3-5) s1(1)
  show ?case by (simp add: logged_step_def)
qed simp



end
