(* ===== verification/Threads.thy ===== *)
theory Threads
  imports Terminal Transport Server
begin

text \<open>
  The threads that read from a socket: \<open>client_thread_main\<close> of \<open>server.c\<close>, one for each connection, and
  \<open>reader_main\<close> of \<open>client.c\<close>. Each reads messages until its connection fails. What the other threads
  do to the shared state while a thread waits for its \<open>k\<close>-th message is the argument \<open>others k\<close>; the
  results of the calls of \<open>read\<close> are a list as in theory \<open>Transport\<close>.
\<close>

section \<open>Receiving uses up the stream\<close>

definition unread :: "TsTransport \<Rightarrow> read_result list \<Rightarrow> nat" where
  "unread transport input = length (tr_buffer transport) + sum_list (map event_bytes input)"

lemma find_newline_less: "find_newline s = Some i \<Longrightarrow> i < length s"
  by (induction s arbitrary: i) (auto split: if_splits)

lemma recv_uses_up:
  assumes "ts_transport_recv transport message error n input = Some (Returned 0 m e, transport', input')"
  shows "unread transport' input' < unread transport input"
  using assms
proof (induction transport message error n input rule: ts_transport_recv.induct)
  case (1 transport message error n input)
  let ?b = "tr_buffer transport"
  show ?case
  proof (cases "find_newline ?b")
    case (Some i)
    with "1.prems" have "input' = input" "tr_buffer transport' = drop (i + 1) ?b"
      by (auto simp: ts_transport_recv.simps [of transport] split: bind_splits)
    with find_newline_less [OF Some] show ?thesis by (simp add: unread_def)
  next
    case None
    with "1.prems" have room: "\<not> TS_MAX_LINE_BYTES \<le> length ?b"
      by (auto simp: ts_transport_recv.simps [of transport])
    show ?thesis
    proof (cases input)
      case Nil
      with None room "1.prems" show ?thesis by (simp add: ts_transport_recv.simps [of transport])
    next
      case (Cons r rs)
      show ?thesis
      proof (cases r)
        case (ReadData bytes)
        with None room Cons "1.prems" have b: "bytes \<noteq> []"
          by (auto simp: ts_transport_recv.simps [of transport])
        define space left where "space = TS_MAX_LINE_BYTES - length ?b" and "left = drop space bytes"
        let ?t = "transport\<lparr>tr_buffer := ?b @ take space bytes\<rparr>" and ?in = "if left = [] then rs else ReadData left # rs"
        have "ts_transport_recv transport message error n input = ts_transport_recv ?t message error n ?in"
          using None room Cons ReadData b
          by (simp add: ts_transport_recv.simps [of transport] space_def left_def Let_def)
        with "1.IH"(1) [OF None room Cons ReadData b space_def left_def] "1.prems"
        have "unread transport' input' < unread ?t ?in" by simp
        also have "unread ?t ?in \<le> unread transport input"
          using Cons ReadData by (simp add: unread_def event_bytes_def left_def)
        finally show ?thesis .
      next
        case ReadInterrupted
        with "1.IH"(2) [OF None room Cons ReadInterrupted] "1.prems" Cons None room
        show ?thesis by (simp add: ts_transport_recv.simps [of transport] unread_def)
      next
        case (ReadFailed reason)
        with None room Cons "1.prems" show ?thesis by (simp add: ts_transport_recv.simps [of transport])
      qed
    qed
  qed
qed

section \<open>The thread of a connection\<close>

datatype thread_status = Running | Ended

function client_thread_loop ::
  "(nat \<Rightarrow> TsServer \<Rightarrow> TsServer) \<Rightarrow> nat \<Rightarrow> TsServer \<Rightarrow> TsClientConnection \<Rightarrow> TsTransport \<Rightarrow> read_result list \<Rightarrow>
   (thread_status \<times> server_effect list \<times> TsServer) ub" where
  "client_thread_loop others k server client transport input =
     (if sv_stopping server then Some (Ended, [], server)
      else case ts_transport_recv transport ts_message_init [] 256 input of
        None \<Rightarrow> None
      | Some (Blocked, transport, input) \<Rightarrow> Some (Running, [], server)
      | Some (Returned rc message error, transport, input) \<Rightarrow>
          if rc \<noteq> 0 then Some (Ended, [], others k server)
          else Option.bind (dispatch_message (others k server) client message) (\<lambda>(effects, server).
            Option.bind (client_thread_loop others (Suc k) server client transport input)
              (\<lambda>(status, effects', server). Some (status, effects @ effects', server))))"
  by pat_completeness auto
termination
  by (relation "measure (\<lambda>(others, k, server, client, transport, input). unread transport input)")
    (auto intro: recv_uses_up)

declare client_thread_loop.simps [simp del]

text \<open>The descriptor is closed on every way out; \<open>client\<close> is freed.\<close>

definition client_thread_main ::
  "(nat \<Rightarrow> TsServer \<Rightarrow> TsServer) \<Rightarrow> TsServer \<Rightarrow> TsClientConnection \<Rightarrow> TsTransport \<Rightarrow> read_result list \<Rightarrow>
   (thread_status \<times> server_effect list \<times> TsServer) ub" where
  "client_thread_main others server client transport input =
     Option.bind (ts_transport_recv transport ts_message_init [] 256 input) (\<lambda>(received, transport, input).
       case received of
         Blocked \<Rightarrow> Some (Running, [], server)
       | Returned rc message error \<Rightarrow>
           Option.bind (client_thread_hello (others 0 server) client (if rc \<noteq> 0 then None else Some message))
             (\<lambda>(stays, client, effects, server).
             if \<not> stays then Some (Ended, effects @ [CloseFd (tr_fd transport)], server)
             else Option.bind (client_thread_loop others 1 server client transport input)
               (\<lambda>(status, effects', server).
               if status = Running then Some (Running, effects @ effects', server)
               else (case client_thread_leave server client of
                 (effects'', server) \<Rightarrow>
                   Some (Ended, effects @ effects' @ effects'' @ [CloseFd (tr_fd transport)], server)))))"

section \<open>The reader thread of a client\<close>

text \<open>\<open>alloc\<close> is the result of \<open>calloc\<close>, \<open>running k\<close> what the thread reads of \<open>client->running\<close> before its
  \<open>k\<close>-th message.\<close>

function reader_main ::
  "(IncomingQueue \<Rightarrow> nat option) \<Rightarrow> (nat \<Rightarrow> bool) \<Rightarrow> nat \<Rightarrow> TsTransport \<Rightarrow> read_result list \<Rightarrow> IncomingQueue \<Rightarrow>
   (thread_status \<times> IncomingQueue) ub" where
  "reader_main alloc running k transport input queue =
     (if \<not> running k then Some (Ended, queue)
      else case ts_transport_recv transport ts_message_init [] 256 input of
        None \<Rightarrow> None
      | Some (Blocked, transport, input) \<Rightarrow> Some (Running, queue)
      | Some (Returned rc message error, transport, input) \<Rightarrow>
          Option.bind (queue_push (alloc queue) (fst (reader_message rc message error)) queue) (\<lambda>queue.
            if rc = 0 then reader_main alloc running (Suc k) transport input queue
            else Some (Ended, queue)))"
  by pat_completeness auto
termination
  by (relation "measure (\<lambda>(alloc, running, k, transport, input, queue). unread transport input)")
    (auto intro: recv_uses_up)

declare reader_main.simps [simp del]

end
