(* ===== verification/Threads_Correct.thy ===== *)
theory Threads_Correct
  imports Threads Transport_Correct Terminal_Correct System_Run
begin

text \<open>
  The threads that read from a socket refine the steps of theory \<open>System\<close>: what arrives as bytes is
  handled as the messages that were sent, in order, up to the end of the connection.
\<close>

section \<open>Receiving with more to come\<close>

lemma recv_append:
  "ts_transport_recv transport message error n input = Some (Returned rc m e, transport', input') \<Longrightarrow>
    ts_transport_recv transport message error n (input @ tail) = Some (Returned rc m e, transport', input' @ tail)"
proof (induction transport message error n input rule: ts_transport_recv.induct)
  case (1 transport message error n input)
  let ?b = "tr_buffer transport"
  show ?case
  proof (cases "find_newline ?b")
    case (Some i)
    with "1.prems" show ?thesis by (auto simp: ts_transport_recv.simps [of transport] split: bind_splits)
  next
    case None
    show ?thesis
    proof (cases "TS_MAX_LINE_BYTES \<le> length ?b")
      case True
      with None have "ts_transport_recv transport message error n y =
          Some (Returned (-1) message (snprintf_buf n ''protocol message exceeds maximum line length''), transport, y)" for y
        by (simp add: ts_transport_recv.simps [of transport])
      with "1.prems" show ?thesis by simp
    next
      case room: False
      show ?thesis
      proof (cases input)
        case Nil
        with None room "1.prems" show ?thesis by (simp add: ts_transport_recv.simps [of transport])
      next
        case (Cons r rs)
        show ?thesis
        proof (cases r)
          case (ReadData bytes)
          show ?thesis
          proof (cases "bytes = []")
            case True
            with None room have "ts_transport_recv transport message error n (ReadData bytes # y) =
                Some (Returned (-1) message (snprintf_buf n ''connection closed''), transport, y)" for y
              by (simp add: ts_transport_recv.simps [of transport])
            with Cons ReadData "1.prems" show ?thesis by simp
          next
            case b: False
            define space left where "space = TS_MAX_LINE_BYTES - length ?b" and "left = drop space bytes"
            let ?t = "transport\<lparr>tr_buffer := ?b @ take space bytes\<rparr>" and ?in = "if left = [] then rs else ReadData left # rs"
            have step: "ts_transport_recv transport message error n (ReadData bytes # y) =
                ts_transport_recv ?t message error n (if left = [] then y else ReadData left # y)" for y
              using None room b by (simp add: ts_transport_recv.simps [of transport] space_def left_def Let_def)
            with Cons ReadData "1.prems" "1.IH"(1) [OF None room Cons ReadData b space_def left_def]
            have "ts_transport_recv ?t message error n (?in @ tail) = Some (Returned rc m e, transport', input' @ tail)" by simp
            with step [of "rs @ tail"] Cons ReadData show ?thesis by (cases "left = []") simp_all
          qed
        next
          case ReadInterrupted
          with "1.IH"(2) [OF None room Cons ReadInterrupted] "1.prems" Cons None room
          show ?thesis by (simp add: ts_transport_recv.simps [of transport])
        next
          case (ReadFailed reason)
          with None room have "ts_transport_recv transport message error n (r # y) =
              Some (Returned (-1) message (snprintf_buf n (''socket read failed: '' @ reason)), transport, y)" for y
            by (simp add: ts_transport_recv.simps [of transport])
          with Cons "1.prems" show ?thesis by simp
        qed
      qed
    qed
  qed
qed

lemma recv_one:
  assumes "sendable m" and "pending t input = ts_encode_message m @ rest" and "only_data input"
  shows "\<exists>e t' input'. ts_transport_recv t ts_message_init [] 256 (input @ tail) = Some (Returned 0 (arrive m) e, t', input' @ tail) \<and>
    pending t' input' = rest \<and> only_data input'"
proof -
  from socket.recv_enc [of m "(t, input)" rest] assms obtain t' input' where
    r: "recv_step (t, input) = Some ((0, arrive m), t', input')" "pending t' input' = rest" "only_data input'"
    by (auto simp: arrive_def)
  from r(1) obtain e where "ts_transport_recv t ts_message_init [] 256 input = Some (Returned 0 (arrive m) e, t', input')"
    by (auto simp: recv_step_def split: option.splits prod.splits recv_outcome.splits)
  from recv_append [OF this, of tail] r(2,3) show ?thesis by blast
qed

definition closed_text :: string where
  "closed_text = ''connection closed''"

lemma recv_closed:
  "pending t input = [] \<Longrightarrow> only_data input \<Longrightarrow>
    \<exists>t' input'. ts_transport_recv t message error 256 (input @ [ReadData []]) = Some (Returned (-1) message closed_text, t', input')"
proof (induction input)
  case Nil
  then show ?case
    by (simp add: ts_transport_recv.simps [of t] pending_def closed_text_def snprintf_buf_def TS_MAX_LINE_BYTES_def)
next
  case (Cons r rs)
  then have "r = ReadInterrupted" by (cases r) (auto simp: pending_def)
  with Cons show ?case
    by (simp add: ts_transport_recv.simps [of t message error 256 "_ # _"] pending_def TS_MAX_LINE_BYTES_def)
qed

section \<open>The thread of a connection does what the messages ask for\<close>

fun serve :: "(nat \<Rightarrow> TsServer \<Rightarrow> TsServer) \<Rightarrow> nat \<Rightarrow> TsServer \<Rightarrow> TsClientConnection \<Rightarrow> TsMessage list \<Rightarrow>
    (server_effect list \<times> TsServer) ub" where
  "serve others k server client [] = Some ([], others k server)"
| "serve others k server client (m # ms) =
     Option.bind (dispatch_message (others k server) client m) (\<lambda>(effects, server).
       Option.bind (serve others (Suc k) server client ms) (\<lambda>(effects', server). Some (effects @ effects', server)))"

lemma dispatch_stopping:
  "dispatch_message server client m = Some (effects, server') \<Longrightarrow> sv_stopping server' = sv_stopping server"
  by (auto simp: dispatch_message_def Let_def split: if_splits bind_splits)

lemma loop_serves:
  assumes "list_all sendable ms" and "pending t input = concat (map ts_encode_message ms)" and "only_data input"
    and "\<And>k s. sv_stopping (others k s) = sv_stopping s" and "\<not> sv_stopping server"
    and "serve others k server client (map arrive ms) = Some (effects, server')"
  shows "client_thread_loop others k server client t (input @ [ReadData []]) = Some (Ended, effects, server')"
  using assms(1-3,5,6)
proof (induction ms arbitrary: t input k server effects)
  case Nil
  from recv_closed [of t input ts_message_init "[]"] Nil obtain t' input' where
    "ts_transport_recv t ts_message_init [] 256 (input @ [ReadData []]) = Some (Returned (-1) ts_message_init closed_text, t', input')"
    by auto
  with Nil show ?case by (subst client_thread_loop.simps) simp
next
  case (Cons m ms)
  from Cons.prems(1,2) have "sendable m" "pending t input = ts_encode_message m @ concat (map ts_encode_message ms)" by auto
  from recv_one [OF this Cons.prems(3), of "[ReadData []]"] obtain e t' input' where
    r: "ts_transport_recv t ts_message_init [] 256 (input @ [ReadData []]) = Some (Returned 0 (arrive m) e, t', input' @ [ReadData []])"
    "pending t' input' = concat (map ts_encode_message ms)" "only_data input'" by blast
  from Cons.prems(5) obtain e1 s1 e2 where d: "dispatch_message (others k server) client (arrive m) = Some (e1, s1)"
    "serve others (Suc k) s1 client (map arrive ms) = Some (e2, server')" "effects = e1 @ e2"
    by (auto split: bind_splits)
  have "\<not> sv_stopping s1" using dispatch_stopping [OF d(1)] assms(4) Cons.prems(4) by simp
  from Cons.IH [OF _ r(2,3) this d(2)] Cons.prems(1) have
    "client_thread_loop others (Suc k) s1 client t' (input' @ [ReadData []]) = Some (Ended, e2, server')" by simp
  with r(1) d Cons.prems(4) show ?case by (subst client_thread_loop.simps) simp
qed

lemma next_free_stopping:
  "next_free_id server n = Some (out, server') \<Longrightarrow> sv_stopping server' = sv_stopping server"
proof (induction server n rule: next_free_id.induct)
  case (1 server n)
  let ?s = "server\<lparr>sv_next_client_number := sv_next_client_number server + 1\<rparr>"
  have lt: "sv_next_client_number server < c_int_max"
    using "1.prems" by (subst (asm) next_free_id.simps) (auto simp: c_int_inc_def split: if_splits)
  then have inc: "c_int_inc (sv_next_client_number server) = Some (sv_next_client_number server + 1)" by simp
  from "1.prems" inc have "sv_stopping server' = sv_stopping ?s \<or>
      client_id_exists_locked ?s (snprintf_buf n (''u'' @ show_int (sv_next_client_number server))) \<and>
      next_free_id ?s n = Some (out, server')"
    by (subst (asm) next_free_id.simps) (auto simp: Let_def split: if_splits)
  with "1.IH" [OF inc refl refl] show ?case by auto
qed

lemma hello_stopping:
  "client_thread_hello server client first = Some (stays, client', effects, server') \<Longrightarrow>
    sv_stopping server' = sv_stopping server"
  by (auto simp: client_thread_hello_def choose_client_id_def register_client_def Let_def
      dest!: next_free_stopping split: option.splits if_splits bind_splits list.splits)

lemma sent_bytes:
  assumes "list_all2 (\<lambda>m ws. fst (ts_transport_send m ws) = Some 0) ms wss"
  shows "concat (map2 (\<lambda>m ws. fst (snd (ts_transport_send m ws))) ms wss) = concat (map ts_encode_message ms)"
  using assms
proof (induction rule: list_all2_induct)
  case (Cons m ms ws wss)
  obtain rc out left where "ts_write_all_fd (ts_encode_message m) ws = (rc, out, left)"
    by (cases "ts_write_all_fd (ts_encode_message m) ws") auto
  with Cons write_all_fd_prefix show ?case by (auto simp: ts_transport_send_def)
qed simp

lemma recv_fd: "ts_transport_recv t m e n input = Some (out, t', input') \<Longrightarrow> tr_fd t' = tr_fd t"
proof (induction t m e n input rule: ts_transport_recv.induct)
  case (1 t m e n input)
  from "1.prems" show ?case
    by (subst (asm) ts_transport_recv.simps)
      (auto simp: Let_def dest: "1.IH" split: option.splits if_splits bind_splits list.splits read_result.splits)
qed


section \<open>What the reader thread pushes\<close>

text \<open>The message that tells the user interface of the end of the connection.\<close>

definition closed_message :: TsMessage where
  "closed_message = fst (reader_message (-1) ts_message_init closed_text)"

definition gives_nodes :: "(IncomingQueue \<Rightarrow> nat option) \<Rightarrow> bool" where
  "gives_nodes alloc \<longleftrightarrow> (\<forall>q. queue_inv q \<longrightarrow> (\<exists>a. alloc q = Some a \<and> iq_nodes q a = None))"

lemma push_inv:
  assumes "gives_nodes alloc" and "queue_inv q"
  shows "\<exists>q'. queue_push (alloc q) m q = Some q' \<and> queue_inv q' \<and> queue_items q' = queue_items q @ [m]"
proof -
  from assms obtain a as where "alloc q = Some a" "iq_nodes q a = None" "queue_rep q as"
    by (auto simp: gives_nodes_def queue_inv_def)
  with push_rep [of q as a m] show ?thesis by (auto simp: queue_inv_def)
qed

lemma reader_pushes:
  assumes "list_all sendable ms" and "pending t input = concat (map ts_encode_message ms)" and "only_data input"
    and "gives_nodes alloc" and "queue_inv queue"
  shows "\<exists>queue'. reader_main alloc (\<lambda>_. True) k t (input @ [ReadData []]) queue = Some (Ended, queue') \<and> queue_inv queue' \<and>
    queue_items queue' = queue_items queue @ map arrive ms @ [closed_message]"
  using assms(1-3,5)
proof (induction ms arbitrary: t input k queue)
  case Nil
  from recv_closed [of t input ts_message_init "[]"] Nil obtain t' input' where
    "ts_transport_recv t ts_message_init [] 256 (input @ [ReadData []]) = Some (Returned (-1) ts_message_init closed_text, t', input')"
    by auto
  with push_inv [OF assms(4) Nil(4), of closed_message] show ?case
    by (subst reader_main.simps) (auto simp: closed_message_def)
next
  case (Cons m ms)
  from Cons.prems(1,2) have "sendable m" "pending t input = ts_encode_message m @ concat (map ts_encode_message ms)" by auto
  from recv_one [OF this Cons.prems(3), of "[ReadData []]"] obtain e t' input' where
    r: "ts_transport_recv t ts_message_init [] 256 (input @ [ReadData []]) = Some (Returned 0 (arrive m) e, t', input' @ [ReadData []])"
    "pending t' input' = concat (map ts_encode_message ms)" "only_data input'" by blast
  from push_inv [OF assms(4) Cons.prems(4), of "arrive m"] obtain q where
    q: "queue_push (alloc queue) (arrive m) queue = Some q" "queue_inv q" "queue_items q = queue_items queue @ [arrive m]" by blast
  from Cons.IH [OF _ r(2,3) q(2), of "Suc k"] Cons.prems(1) r(1) q(1,3) show ?case
    by (subst reader_main.simps) (auto simp: reader_message_def)
qed

text \<open>C8: What the server sends reaches the replica. However the bytes of the messages are cut, the reader
  thread pushes exactly these messages and then the report that the connection is closed, and the user
  interface handles them in order: the client's state is that of handling the messages one by one.\<close>

theorem server_messages_reach_the_replica:
  assumes "list_all sendable ms"
    and "list_all2 (\<lambda>m ws. fst (ts_transport_send m ws) = Some 0) ms wss"
    and "only_data input" and "input_bytes input = concat (map2 (\<lambda>m ws. fst (snd (ts_transport_send m ws))) ms wss)"
    and "gives_nodes alloc"
    and "handle_all (tc_state client) (map arrive ms @ [closed_message]) = Some (st', sent)"
  shows "\<exists>queue client'. reader_main alloc (\<lambda>_. True) 0 (ts_transport_init fd) (input @ [ReadData []]) queue_init = Some (Ended, queue) \<and>
    drain_messages (client\<lparr>tc_incoming := queue\<rparr>) = Some (client', sent) \<and> tc_state client' = st' \<and>
    tc_cursor_pos client' \<le> projected_content_length client'"
proof -
  have p: "pending (ts_transport_init fd) input = concat (map ts_encode_message ms)"
    using assms(4) sent_bytes [OF assms(2)] by (simp add: pending_def ts_transport_init_def)
  have init: "queue_rep queue_init []" by (simp add: queue_rep_def queue_init_def)
  then have "queue_inv queue_init" "queue_items queue_init = []" by (auto simp: queue_inv_def queue_rep_items)
  with reader_pushes [OF assms(1) p assms(3,5), of queue_init 0] obtain queue as where
    q: "reader_main alloc (\<lambda>_. True) 0 (ts_transport_init fd) (input @ [ReadData []]) queue_init = Some (Ended, queue)"
    "queue_rep queue as" "queue_items queue = map arrive ms @ [closed_message]" by (auto simp: queue_inv_def)
  have "as \<noteq> []" using queue_rep_items [OF q(2)] q(3) by auto
  with drain_rep [of "client\<lparr>tc_incoming := queue\<rparr>" as st' sent] q assms(6) show ?thesis
    by (auto simp: cursor_in_range_def)
qed

section \<open>Concrete connections\<close>

lemma join_encoded: \<open>ts_encode_message (join_message ''al'') = ''{"type":"JOIN","client_id":"al"}'' @ [CHR 0x0A]\<close>
  by code_simp

lemma join_sendable: "sendable (join_message ''al'')"
  by (simp add: sendable_def join_encoded TS_MAX_LINE_BYTES_def)
    (simp add: join_message_def wire_message_def buffer_def version_field_def ts_sizes c_int_max_def snprintf_buf_def)

definition new_conn :: TsClientConnection where
  "new_conn = \<lparr>cn_fd = 4, cn_client_id = [], cn_address = ''a''\<rparr>"

lemma hello_al: "\<exists>effects. client_thread_hello example_start new_conn (Some (arrive (join_message ''al''))) =
    Some (True, conn4, effects, example_start\<lparr>sv_clients := [conn4]\<rparr>)"
  by (simp add: new_conn_def example_start_simps client_thread_hello_def
     choose_client_id_def join_message_def register_client_def snprintf_buf_def ts_sizes Let_def client_ids_def conn4_def)


definition ab_state :: TsMessage where
  "ab_state = ts_message_init\<lparr>msg_type := ''DOC_STATE'', msg_version := 3, msg_content := Some ''ab''\<rparr>"

lemma ab_encoded: \<open>ts_encode_message ab_state = ''{"type":"DOC_STATE","version":3,"content":"ab"}'' @ [CHR 0x0A]\<close>
  by code_simp

lemma ab_sendable: "sendable ab_state"
  by (simp add: sendable_def ab_encoded TS_MAX_LINE_BYTES_def)
    (simp add: ab_state_def wire_message_def buffer_def version_field_def ts_sizes c_int_max_def)

theorem server_messages_reach_the_replica_witness:
  "\<exists>queue client' sent. reader_main (\<lambda>q. Some (fresh_node q)) (\<lambda>_. True) 0 (ts_transport_init 3)
      [ReadData ''{\"type\":\"DOC_STATE\",\"vers'', ReadData (''ion\":3,\"content\":\"ab\"}'' @ [CHR 0x0A]), ReadData []] queue_init =
      Some (Ended, queue) \<and>
    drain_messages (demo_client\<lparr>tc_incoming := queue\<rparr>) = Some (client', sent) \<and>
    cs_content (tc_state client') = ''ab'' \<and> cs_version (tc_state client') = 3"
proof -
  let ?in = "[ReadData ''{\"type\":\"DOC_STATE\",\"vers'', ReadData (''ion\":3,\"content\":\"ab\"}'' @ [CHR 0x0A])]"
  have send: "ts_transport_send ab_state [Wrote 100] = (Some 0, ts_encode_message ab_state, [])"
    by (simp add: ts_transport_send_def ab_encoded write_all_fd_simps)
  have all: "list_all sendable [ab_state]" using ab_sendable by simp
  have sent: "list_all2 (\<lambda>m ws. fst (ts_transport_send m ws) = Some 0) [ab_state] [[Wrote 100]]" by (simp add: send)
  have data: "only_data ?in" by simp
  have bytes: "input_bytes ?in = concat (map2 (\<lambda>m ws. fst (snd (ts_transport_send m ws))) [ab_state] [[Wrote 100]])"
    by (simp add: send) (simp add: ab_encoded)
  have nodes: "gives_nodes (\<lambda>q. Some (fresh_node q))" by (simp add: gives_nodes_def fresh_node)
  obtain st' out where h: "handle_all (tc_state demo_client) (map arrive [ab_state] @ [closed_message]) = Some (st', out)"
    "cs_content st' = ''ab''" "cs_version st' = 3"
    by (simp add: ab_state_def closed_message_def reader_message_def ts_client_state_handle_message_def
        ts_client_state_set_document_def pump_idle snprintf_buf_def ts_sizes)
  from server_messages_reach_the_replica [OF all sent data bytes nodes h(1), of 3] h(2,3)
  show ?thesis by auto
qed

end
