(* ===== verification/ClientMain.thy ===== *)
theory ClientMain
  imports Terminal
begin

text \<open>
  The main thread of \<open>client.c\<close>: opening the connection, the loop of the user interface, and \<open>main\<close>.
  The results of the system calls are arguments, the descriptors that are closed a result.
\<close>

section \<open>Opening the connection\<close>

text \<open>One address of \<open>getaddrinfo\<close>: what \<open>socket\<close> and \<open>connect\<close> return for it.\<close>

record address_result =
  ar_socket :: int
  ar_connect :: int

text \<open>The loop over the addresses with the descriptor so far; also the sockets that it closed.\<close>

fun connect_loop :: "int \<Rightarrow> address_result list \<Rightarrow> int \<times> int list" where
  "connect_loop fd [] = (fd, [])"
| "connect_loop fd (rp # rest) =
     (let fd = ar_socket rp in
      if fd < 0 then connect_loop fd rest
      else if ar_connect rp = 0 then (fd, [])
      else (case connect_loop (-1) rest of (result, closed) \<Rightarrow> (result, fd # closed)))"

text \<open>\<open>results\<close> is null when \<open>getaddrinfo\<close> fails.\<close>

definition connect_tcp :: "address_result list option \<Rightarrow> int \<times> int list" where
  "connect_tcp results = (case results of None \<Rightarrow> (-1, []) | Some rps \<Rightarrow> connect_loop (-1) rps)"

section \<open>The loop of the user interface\<close>

text \<open>What one turn meets: the messages that the reader thread pushes before it, the size of the window, and
  the key, if \<open>get_wch\<close> gives one in time.\<close>

record ui_round =
  ur_arrived :: "TsMessage list"
  ur_height :: int
  ur_width :: int
  ur_key :: "(nat \<times> int) option"

fun push_arrived :: "(IncomingQueue \<Rightarrow> nat option) \<Rightarrow> TsMessage list \<Rightarrow> IncomingQueue \<Rightarrow> IncomingQueue ub" where
  "push_arrived alloc [] queue = Some queue"
| "push_arrived alloc (m # ms) queue = Option.bind (queue_push (alloc queue) m queue) (push_arrived alloc ms)"

text \<open>The result says whether the loop was left; with no rounds left it still waits.\<close>

fun client_loop ::
  "terminal_env \<Rightarrow> (IncomingQueue \<Rightarrow> nat option) \<Rightarrow> ui_round list \<Rightarrow> TerminalClient \<Rightarrow>
   (bool \<times> TsMessage list \<times> TerminalClient) ub" where
  "client_loop env alloc [] client = Some (\<not> tc_running client, [], client)"
| "client_loop env alloc (r # rs) client =
     (if \<not> tc_running client then Some (True, [], client)
      else do {
        queue \<leftarrow> push_arrived alloc (ur_arrived r) (tc_incoming client);
        (client, sent) \<leftarrow> client_turn env (ur_height r) (ur_width r) (ur_key r) (client\<lparr>tc_incoming := queue\<rparr>);
        (ended, sent', client) \<leftarrow> client_loop env alloc rs client;
        Some (ended, sent @ sent', client)
      })"

section \<open>The main function\<close>

text \<open>The exit code (null while the loop runs), the messages sent and the descriptors closed.\<close>

definition client_main ::
  "string list \<Rightarrow> address_result list option \<Rightarrow> terminal_env \<Rightarrow> (IncomingQueue \<Rightarrow> nat option) \<Rightarrow> ui_round list \<Rightarrow>
   (int option \<times> TsMessage list \<times> int list) ub" where
  "client_main argv results env alloc rounds =
     (case connect_tcp results of
        (fd, closed) \<Rightarrow>
          if fd < 0 then Some (Some 1, [], closed)
          else (case client_main_init argv fd of
            (client, sent) \<Rightarrow> do {
              (ended, sent', client) \<leftarrow> client_loop env alloc rounds client;
              Some (if ended then (Some 0, sent @ sent', closed @ [tr_fd (tc_transport client)])
                    else (None, sent @ sent', closed))
            }))"

end
