(* ===== verification/ClientMain_Correct.thy ===== *)
theory ClientMain_Correct
  imports ClientMain Threads_Correct
begin

text \<open>
  Correctness of the main thread of the client: which address it connects to and which sockets it closes, that
  every message of whole characters and every key is handled without undefined behaviour, and how it
  ends. What the writes return is not looked at, as the code does not; the client does not ignore
  \<open>SIGPIPE\<close>, so a write to a broken connection may end it (not modelled here).
\<close>

section \<open>Connecting\<close>

definition connects :: "address_result \<Rightarrow> bool" where
  "connects rp \<longleftrightarrow> 0 \<le> ar_socket rp \<and> ar_connect rp = 0"

text \<open>The first address that can be reached is used, and every other socket that was opened is closed.\<close>

lemma connect_first:
  "fd < 0 \<Longrightarrow> connect_loop fd rps = (result, closed) \<Longrightarrow>
    closed = filter (\<lambda>fd. 0 \<le> fd) (map ar_socket (takeWhile (\<lambda>rp. \<not> connects rp) rps)) \<and>
    (case dropWhile (\<lambda>rp. \<not> connects rp) rps of [] \<Rightarrow> result < 0 | rp # _ \<Rightarrow> result = ar_socket rp)"
proof (induction rps arbitrary: fd result closed)
  case (Cons rp rps)
  consider "ar_socket rp < 0" | "0 \<le> ar_socket rp" "ar_connect rp = 0" | "0 \<le> ar_socket rp" "ar_connect rp \<noteq> 0" by fastforce
  then show ?case
  proof cases
    case 1
    with Cons.IH [of "ar_socket rp" result closed] Cons.prems show ?thesis by (simp add: connects_def)
  next
    case 2
    with Cons.prems show ?thesis by (simp add: connects_def)
  next
    case 3
    obtain r c where "connect_loop (-1) rps = (r, c)" by fastforce
    with 3 Cons.IH [of "-1" r c] Cons.prems show ?thesis by (auto simp: connects_def Let_def)
  qed
qed simp

section \<open>Every message and every key is handled\<close>

text \<open>Messages whose texts are made of whole characters.\<close>

definition whole_message :: "TsMessage \<Rightarrow> bool" where
  "whole_message m \<longleftrightarrow> (\<forall>t. msg_content m = Some t \<longrightarrow> valid_utf8 t) \<and> (msg_has_op m \<longrightarrow> good_op (msg_op m))"

definition whole_state :: "TsClientState \<Rightarrow> bool" where
  "whole_state st \<longleftrightarrow> valid_utf8 (cs_content st) \<and> cs_send_fn st"

lemma whole_state_pump [simp]: "whole_state (fst (state_pump st)) = whole_state st"
  by (simp add: whole_state_def pump_frame)

lemma whole_state_simps [simp]:
  "whole_state (set_status msg st) = whole_state st"
  "whole_state (st\<lparr>cs_has_inflight := b\<rparr>) = whole_state st"
  "whole_state (st\<lparr>cs_client_id := i\<rparr>) = whole_state st"
  "whole_state (st\<lparr>cs_version := v\<rparr>) = whole_state st"
  by (simp_all add: whole_state_def)

lemma apply_whole:
  assumes "whole_state st" "whole_message m"
  shows "\<exists>st'. apply_authoritative_op st m = Some st' \<and> whole_state st' \<and> cs_next_op_number st' = cs_next_op_number st"
proof (cases "msg_has_op m")
  case True
  with assms have v: "valid_utf8 (cs_content st)" and g: "good_op (msg_op m)" by (auto simp: whole_state_def whole_message_def)
  from utf8.apply_chars [OF v g] obtain t where
    "ts_apply_operation_to_text (Some (cs_content st)) (Some (msg_op m)) = Some t" "valid_utf8 t" by blast
  with True assms(1) show ?thesis by (auto simp: apply_authoritative_op_def Let_def whole_state_def)
qed (use assms(1) in \<open>simp add: apply_authoritative_op_def\<close>)

lemma handle_whole:
  assumes "whole_state st" "whole_message m"
  shows "\<exists>st' sent. ts_client_state_handle_message st m = Some (st', sent) \<and> whole_state st' \<and>
    cs_next_op_number st' = cs_next_op_number st"
proof -
  obtain u where u: "apply_authoritative_op st m = Some u" "whole_state u" "cs_next_op_number u = cs_next_op_number st"
    using apply_whole [OF assms] by blast
  have send: "cs_send_fn st" using assms(1) by (simp add: whole_state_def)
  have pumped: "\<exists>st' sent. state_pump v = (st', sent) \<and> whole_state st' \<and> cs_next_op_number st' = n"
    if "whole_state v" "cs_next_op_number v = n" for v n
    using that whole_state_pump [of v] pump_frame(5) [of v] by (metis prod.collapse)
  have doc: "\<exists>st' sent. ts_client_state_set_document st (Some c) v h = (st', sent) \<and> whole_state st' \<and>
      cs_next_op_number st' = cs_next_op_number st" if "valid_utf8 c" for c v h
    unfolding ts_client_state_set_document_def
    by (rule pumped) (use that send in \<open>simp_all add: whole_state_def\<close>)
  have ack: "\<exists>st' sent. handle_ack st m = Some (st', sent) \<and> whole_state st' \<and> cs_next_op_number st' = cs_next_op_number st"
    using u assms(1) pumped [of "set_status (''ACK '' @ msg_op_id m @ '' at version '' @ show_int (cs_version u)) (u\<lparr>cs_has_inflight := False\<rparr>)"]
    by (auto simp: handle_ack_def Let_def)
  have remote: "\<exists>st' sent. handle_remote st m = Some (st', sent) \<and> whole_state st' \<and> cs_next_op_number st' = cs_next_op_number st"
    using u assms(1) send by (auto simp: handle_remote_def Let_def)
  consider "msg_type m = ''DOC_STATE''" | "msg_type m = ''ACK''" | "msg_type m = ''REMOTE_OP''"
    | "msg_type m \<noteq> ''DOC_STATE''" "msg_type m \<noteq> ''ACK''" "msg_type m \<noteq> ''REMOTE_OP''" by blast
  then show ?thesis
  proof cases
    case 1
    have "valid_utf8 (case msg_content m of Some c \<Rightarrow> c | None \<Rightarrow> [])"
      using assms(2) by (auto simp: whole_message_def split: option.split)
    from doc [OF this] 1 show ?thesis by (simp add: ts_client_state_handle_message_def)
  next
    case 2
    with ack show ?thesis by (simp add: ts_client_state_handle_message_def)
  next
    case 3
    with remote show ?thesis by (simp add: ts_client_state_handle_message_def)
  next
    case 4
    with assms(1) send show ?thesis by (simp add: ts_client_state_handle_message_def Let_def)
  qed
qed

text \<open>What no message changes in the client.\<close>

definition same_session :: "TerminalClient \<Rightarrow> TerminalClient \<Rightarrow> bool" where
  "same_session client client' \<longleftrightarrow> tc_running client' = tc_running client \<and> tc_transport client' = tc_transport client \<and>
     cs_next_op_number (tc_state client') = cs_next_op_number (tc_state client)"

lemma clamp_keeps [simp]: "same_session client (clamp_cursor_to_projected_content client') = same_session client client'"
  by (simp add: same_session_def clamp_cursor_to_projected_content_def Let_def)

lemma drain_whole:
  "queue_rep (tc_incoming client) as \<Longrightarrow> whole_state (tc_state client) \<Longrightarrow>
    list_all whole_message (queue_items (tc_incoming client)) \<Longrightarrow>
    \<exists>client' sent. drain_messages client = Some (client', sent) \<and> whole_state (tc_state client') \<and>
      queue_rep (tc_incoming client') [] \<and> same_session client client'"
proof (induction as arbitrary: client)
  case Nil
  then show ?case by (subst drain_messages.simps) (auto simp: pop_rep_empty same_session_def)
next
  case (Cons a as)
  let ?m = "message_at (iq_nodes (tc_incoming client)) a"
  from pop_rep [OF Cons.prems(1)] obtain q where q: "queue_pop (tc_incoming client) = Some (Some ?m, q)" "queue_rep q as"
    "queue_items (tc_incoming client) = ?m # queue_items q" by blast
  from Cons.prems(3) q(3) have m: "whole_message ?m" "list_all whole_message (queue_items q)" by simp_all
  from handle_whole [OF Cons.prems(2) m(1)] obtain st1 sent1 where
    h: "ts_client_state_handle_message (tc_state client) ?m = Some (st1, sent1)" "whole_state st1"
    "cs_next_op_number st1 = cs_next_op_number (tc_state client)" by blast
  let ?c = "clamp_cursor_to_projected_content (client\<lparr>tc_incoming := q, tc_state := st1\<rparr>)"
  from Cons.IH [of ?c] q(2) h(2) m(2) obtain client' sent2 where
    d: "drain_messages ?c = Some (client', sent2)" "whole_state (tc_state client')" "queue_rep (tc_incoming client') []"
    "same_session ?c client'" by auto
  have "same_session client (client\<lparr>tc_incoming := q, tc_state := st1\<rparr>)" using h(3) by (simp add: same_session_def)
  then have "same_session client ?c" by simp
  with d(4) have "same_session client client'" by (simp add: same_session_def)
  with q(1) h(1) d show ?case by (subst drain_messages.simps) simp
qed

lemma render_whole:
  assumes "whole_state (tc_state client)"
  shows "\<exists>drawn cursor s. render env h w client = Some (drawn, cursor, client\<lparr>tc_scroll_line := s\<rparr>)"
proof -
  from assms obtain us where "list_all utf8_char us" "cs_content (tc_state client) = concat us"
    by (auto simp: whole_state_def elim: valid_utf8E)
  then have "\<exists>n. ts_utf8_byte_offset (Some (cs_content (tc_state client))) p = Some n" for p
    using byte_offset_concat [of us p] by auto
  then obtain n where "ts_utf8_byte_offset (Some (cs_content (tc_state client))) (tc_cursor_pos client) = Some n" by blast
  then show ?thesis by (simp add: render_def render_lines_def line_for_pos_def col_for_pos_def Let_def) blast
qed

text \<open>The key that ends the program.\<close>

definition quits :: "terminal_env \<Rightarrow> ui_round \<Rightarrow> bool" where
  "quits env r \<longleftrightarrow> (\<exists>rc. ur_key r = Some (CTRL_Q, rc) \<and> rc \<noteq> te_KEY_CODE_YES env)"

definition next_session :: "bool \<Rightarrow> TerminalClient \<Rightarrow> TerminalClient \<Rightarrow> bool" where
  "next_session ends client client' \<longleftrightarrow> tc_running client' = (tc_running client \<and> \<not> ends) \<and>
     tc_transport client' = tc_transport client \<and> tc_incoming client' = tc_incoming client \<and>
     cs_next_op_number (tc_state client') \<le> cs_next_op_number (tc_state client) + 1"

lemma queue_operation_whole:
  assumes "ts_client_state_queue_operation True st op = Some (rc, oid, st', sent)"
  shows "whole_state st' = whole_state st"
proof -
  have "whole_state (queued_state st op) = whole_state st"
    by (simp add: whole_state_def queued_state_def push_queue_def new_pending_def)
  moreover have "st' = fst (state_pump (queued_state st op))"
    using assms by (auto simp: queue_operation_eq split: if_splits)
  ultimately show ?thesis by simp
qed

lemma insert_whole:
  assumes "whole_state (tc_state client)" "cs_next_op_number (tc_state client) < c_int_max"
  shows "\<exists>client' sent. queue_insert client c = Some (client', sent) \<and> whole_state (tc_state client') \<and>
    next_session False client client'"
proof -
  let ?op = "ts_operation_init TS_OP_INSERT (tc_cursor_pos client) (Some c)"
  obtain oid st' sent where q: "ts_client_state_queue_operation True (tc_state client) ?op = Some (0, oid, st', sent)"
    using queue_operation_defined [OF assms(2)] by blast
  with assms(1) queue_operation_whole [OF q] queue_operation_pending [OF q] show ?thesis
    by (auto simp: queue_insert_def next_session_def)
qed

lemma delete_whole:
  assumes "whole_state (tc_state client)" "cs_next_op_number (tc_state client) < c_int_max"
  shows "\<exists>client' sent. delete_before_cursor client = Some (client', sent) \<and> whole_state (tc_state client') \<and>
    next_session False client client'"
proof (cases "tc_cursor_pos client = 0")
  case False
  let ?op = "ts_operation_init TS_OP_DELETE (tc_cursor_pos client - 1) None"
  obtain oid st' sent where q: "ts_client_state_queue_operation True (tc_state client) ?op = Some (0, oid, st', sent)"
    using queue_operation_defined [OF assms(2)] by blast
  with False assms(1) queue_operation_whole [OF q] queue_operation_pending [OF q] show ?thesis
    by (auto simp: delete_before_cursor_def next_session_def)
qed (use assms(1) in \<open>simp add: delete_before_cursor_def next_session_def\<close>)

lemma key_whole:
  assumes "whole_state (tc_state client)" "cs_next_op_number (tc_state client) < c_int_max"
  shows "\<exists>client' sent. handle_key env client k rc = Some (client', sent) \<and> whole_state (tc_state client') \<and>
    next_session (k = CTRL_Q \<and> rc \<noteq> te_KEY_CODE_YES env) client client'"
proof -
  have moved: "next_session False client (client\<lparr>tc_cursor_pos := p\<rparr>)" "next_session False client client"
    "next_session True client (client\<lparr>tc_running := False\<rparr>)" for p
    by (simp_all add: next_session_def)
  have other: "CTRL_Q \<noteq> CTRL_S" "CTRL_Q \<noteq> 10" "CTRL_Q \<noteq> 13" "CTRL_Q \<noteq> 127" "CTRL_Q \<noteq> 8"
    by (simp_all add: CTRL_Q_def CTRL_S_def)
  show ?thesis
  proof (cases "rc = te_KEY_CODE_YES env")
    case True
    with assms(1) moved delete_whole [OF assms] show ?thesis by (simp add: handle_key_def Let_def)
  next
    case False
    show ?thesis
    proof (cases "k = CTRL_Q")
      case True
      with False assms(1) moved show ?thesis by (simp add: handle_key_def)
    next
      case k: False
      with False assms(1) moved delete_whole [OF assms] insert_whole [OF assms] show ?thesis
        by (simp add: handle_key_def split: option.split)
    qed
  qed
qed

text \<open>One turn: the queue is empty afterwards, and at most one more operation has a number.\<close>

lemma turn_whole:
  assumes "queue_rep (tc_incoming client) as" "whole_state (tc_state client)"
    "list_all whole_message (queue_items (tc_incoming client))" "cs_next_op_number (tc_state client) < c_int_max"
  shows "\<exists>client' sent. client_turn env (ur_height r) (ur_width r) (ur_key r) client = Some (client', sent) \<and>
    whole_state (tc_state client') \<and> queue_rep (tc_incoming client') [] \<and>
    tc_running client' = (tc_running client \<and> \<not> quits env r) \<and> tc_transport client' = tc_transport client \<and>
    cs_next_op_number (tc_state client') \<le> cs_next_op_number (tc_state client) + 1"
proof -
  from drain_whole [OF assms(1-3)] obtain c1 sent1 where
    d: "drain_messages client = Some (c1, sent1)" "whole_state (tc_state c1)" "queue_rep (tc_incoming c1) []" "same_session client c1"
    by blast
  from render_whole [OF d(2)] obtain drawn cursor s where
    r: "render env (ur_height r) (ur_width r) c1 = Some (drawn, cursor, c1\<lparr>tc_scroll_line := s\<rparr>)" by blast
  let ?c = "c1\<lparr>tc_scroll_line := s\<rparr>"
  show ?thesis
  proof (cases "ur_key r")
    case None
    with d r show ?thesis by (auto simp: client_turn_def same_session_def quits_def)
  next
    case (Some key)
    obtain k rc where key: "key = (k, rc)" by fastforce
    have "whole_state (tc_state ?c)" "cs_next_op_number (tc_state ?c) < c_int_max"
      using d(2,4) assms(4) by (simp_all add: same_session_def)
    from key_whole [OF this, of env k rc] obtain c2 sent2 where
      h: "handle_key env ?c k rc = Some (c2, sent2)" "whole_state (tc_state c2)"
      "next_session (k = CTRL_Q \<and> rc \<noteq> te_KEY_CODE_YES env) ?c c2" by blast
    have "quits env r = (k = CTRL_Q \<and> rc \<noteq> te_KEY_CODE_YES env)" using Some key by (auto simp: quits_def)
    with d(1,3,4) r h Some key show ?thesis by (simp add: client_turn_def same_session_def next_session_def)
  qed
qed

text \<open>What \<open>calloc\<close> gives is a fresh node or null.\<close>

definition fresh_or_null :: "(IncomingQueue \<Rightarrow> nat option) \<Rightarrow> bool" where
  "fresh_or_null alloc \<longleftrightarrow> (\<forall>q a. queue_inv q \<longrightarrow> alloc q = Some a \<longrightarrow> iq_nodes q a = None)"

lemma push_arrived_whole:
  "fresh_or_null alloc \<Longrightarrow> queue_inv q \<Longrightarrow> list_all whole_message (queue_items q) \<Longrightarrow> list_all whole_message ms \<Longrightarrow>
    \<exists>q'. push_arrived alloc ms q = Some q' \<and> queue_inv q' \<and> list_all whole_message (queue_items q')"
proof (induction ms arbitrary: q)
  case (Cons m ms)
  have "\<exists>q1. queue_push (alloc q) m q = Some q1 \<and> queue_inv q1 \<and> list_all whole_message (queue_items q1)"
  proof (cases "alloc q")
    case None
    with Cons.prems show ?thesis by (simp add: queue_push_def)
  next
    case (Some a)
    with Cons.prems(1,2) have a: "iq_nodes q a = None" by (simp add: fresh_or_null_def)
    from Cons.prems(2) obtain as where "queue_rep q as" by (auto simp: queue_inv_def)
    from push_rep [OF this a, of m] Some Cons.prems(3,4) show ?thesis by (auto simp: queue_inv_def)
  qed
  then obtain q1 where "queue_push (alloc q) m q = Some q1" "queue_inv q1" "list_all whole_message (queue_items q1)" by blast
  with Cons.IH [of q1] Cons.prems(1,4) show ?case by simp
qed simp

lemma loop_whole:
  assumes "fresh_or_null alloc"
  shows "list_all (\<lambda>r. list_all whole_message (ur_arrived r)) rounds \<Longrightarrow> queue_rep (tc_incoming client) [] \<Longrightarrow>
    whole_state (tc_state client) \<Longrightarrow> cs_next_op_number (tc_state client) + int (length rounds) \<le> c_int_max \<Longrightarrow>
    \<exists>client' sent. client_loop env alloc rounds client =
      Some (\<not> tc_running client \<or> (\<exists>r \<in> set rounds. quits env r), sent, client') \<and> tc_transport client' = tc_transport client"
proof (induction rounds arbitrary: client)
  case (Cons r rounds)
  show ?case
  proof (cases "tc_running client")
    case True
    have "queue_inv (tc_incoming client)" "list_all whole_message (queue_items (tc_incoming client))"
      using Cons.prems(2) queue_rep_items [OF Cons.prems(2)] by (auto simp: queue_inv_def)
    from push_arrived_whole [OF assms this] Cons.prems(1) obtain q where
      q: "push_arrived alloc (ur_arrived r) (tc_incoming client) = Some q" "queue_inv q" "list_all whole_message (queue_items q)"
      by auto
    from q(2) obtain as where as: "queue_rep q as" by (auto simp: queue_inv_def)
    from turn_whole [of "client\<lparr>tc_incoming := q\<rparr>" as env r] as q(3) Cons.prems(3,4) obtain c1 sent1 where
      t: "client_turn env (ur_height r) (ur_width r) (ur_key r) (client\<lparr>tc_incoming := q\<rparr>) = Some (c1, sent1)"
      "whole_state (tc_state c1)" "queue_rep (tc_incoming c1) []" "tc_running c1 = (\<not> quits env r)"
      "tc_transport c1 = tc_transport client" "cs_next_op_number (tc_state c1) \<le> cs_next_op_number (tc_state client) + 1"
      using True by auto
    from Cons.IH [OF _ t(3,2)] Cons.prems(1,4) t(6) obtain client' sent where
      "client_loop env alloc rounds c1 = Some (\<not> tc_running c1 \<or> (\<exists>r \<in> set rounds. quits env r), sent, client')"
      "tc_transport client' = tc_transport c1" by auto
    with True q(1) t(1,4,5) show ?thesis by auto
  qed simp
qed simp

section \<open>The whole program\<close>

definition tried :: "address_result list option \<Rightarrow> address_result list" where
  "tried results = (case results of None \<Rightarrow> [] | Some rps \<Rightarrow> rps)"

definition given_up :: "address_result list option \<Rightarrow> int list" where
  "given_up results = filter (\<lambda>fd. 0 \<le> fd) (map ar_socket (takeWhile (\<lambda>rp. \<not> connects rp) (tried results)))"

lemma connect_tcp_first:
  "connect_tcp results = (fd, closed) \<Longrightarrow> closed = given_up results \<and>
    (case dropWhile (\<lambda>rp. \<not> connects rp) (tried results) of [] \<Rightarrow> fd < 0 | rp # _ \<Rightarrow> fd = ar_socket rp)"
  using connect_first [of "-1" _ fd closed]
  by (cases results) (auto simp: connect_tcp_def tried_def given_up_def split: list.split)


section \<open>A concrete run\<close>

definition demo_addresses :: "address_result list" where
  "demo_addresses = [\<lparr>ar_socket = -1, ar_connect = 0\<rparr>, \<lparr>ar_socket = 5, ar_connect = -1\<rparr>, \<lparr>ar_socket = 6, ar_connect = 0\<rparr>]"

definition demo_rounds :: "ui_round list" where
  "demo_rounds =
     [\<lparr>ur_arrived = demo_incoming, ur_height = 24, ur_width = 80, ur_key = None\<rparr>,
      \<lparr>ur_arrived = [], ur_height = 24, ur_width = 80, ur_key = Some (104, 0)\<rparr>,
      \<lparr>ur_arrived = [], ur_height = 2, ur_width = 1, ur_key = Some (CTRL_Q, 0)\<rparr>]"


end
