(* ===== verification/Clock.thy ===== *)
theory Clock
  imports Prelude
begin

text \<open>
  Time: the clock of the save process (\<open>monotonic_ms\<close> of \<open>autosave.c\<close>) and sleeping (\<open>ts_msleep\<close> of
  \<open>util.c\<close>). What \<open>clock_gettime\<close> reads and the outcomes of \<open>nanosleep\<close> are arguments; the requests to
  sleep are the result.
\<close>

record timespec =
  tv_sec :: int
  tv_nsec :: int

definition nanoseconds :: "timespec \<Rightarrow> int" where
  "nanoseconds t = tv_sec t * 1000000000 + tv_nsec t"

section \<open>The monotonic clock\<close>

definition monotonic_ms :: "timespec \<Rightarrow> int" where
  "monotonic_ms now = tv_sec now * 1000 + tv_nsec now div 1000000"

text \<open>It is the time in whole milliseconds, so it never goes back while the clock does not.\<close>

lemma monotonic_ms_nanoseconds: "monotonic_ms now = nanoseconds now div 1000000"
proof -
  have "nanoseconds now = tv_sec now * 1000 * 1000000 + tv_nsec now" by (simp add: nanoseconds_def)
  then show ?thesis by (simp add: monotonic_ms_def)
qed

lemma monotonic_ms_mono: "nanoseconds t \<le> nanoseconds u \<Longrightarrow> monotonic_ms t \<le> monotonic_ms u"
  by (simp add: monotonic_ms_nanoseconds zdiv_mono1)

section \<open>Sleeping\<close>

text \<open>\<open>EINTR\<close> leaves the time that remains in the second argument, which is the request itself.\<close>

datatype sleep_result = Slept | SleepInterrupted timespec | SleepError

fun sleep_loop :: "timespec \<Rightarrow> sleep_result list \<Rightarrow> timespec list" where
  "sleep_loop req [] = [req]"
| "sleep_loop req (r # rs) =
     (case r of
        SleepInterrupted remaining \<Rightarrow> req # sleep_loop remaining rs
      | _ \<Rightarrow> [req])"

definition ts_msleep :: "int \<Rightarrow> sleep_result list \<Rightarrow> timespec list" where
  "ts_msleep milliseconds results =
     (if milliseconds \<le> 0 then []
      else sleep_loop
        \<lparr>tv_sec = milliseconds div 1000, tv_nsec = milliseconds mod 1000 * 1000000\<rparr> results)"

text \<open>How long the calls slept: an interrupted one for its request less what remained.\<close>

fun slept_time :: "timespec list \<Rightarrow> sleep_result list \<Rightarrow> int" where
  "slept_time [] results = 0"
| "slept_time (req # reqs) [] = nanoseconds req + slept_time reqs []"
| "slept_time (req # reqs) (r # rs) =
     (case r of
        Slept \<Rightarrow> nanoseconds req
      | SleepInterrupted remaining \<Rightarrow> nanoseconds req - nanoseconds remaining
      | SleepError \<Rightarrow> 0) + slept_time reqs rs"

lemma sleep_loop_sleeps: "SleepError \<notin> set rs \<Longrightarrow> slept_time (sleep_loop req rs) rs = nanoseconds req"
  by (induction rs arbitrary: req) (auto split: sleep_result.split)

text \<open>However often it is interrupted, it sleeps exactly as long as it was asked to, and its first request is
  one that \<open>nanosleep\<close> accepts.\<close>

lemma msleep_sleeps_all:
  assumes "0 < milliseconds" and "SleepError \<notin> set results"
  shows "slept_time (ts_msleep milliseconds results) results = milliseconds * 1000000"
    "0 \<le> tv_nsec (hd (ts_msleep milliseconds results))" "tv_nsec (hd (ts_msleep milliseconds results)) < 1000000000"
proof -
  have "slept_time (ts_msleep milliseconds results) results =
      milliseconds div 1000 * 1000000000 + milliseconds mod 1000 * 1000000"
    using assms by (simp add: ts_msleep_def sleep_loop_sleeps nanoseconds_def)
  with div_mult_mod_eq [of milliseconds 1000]
  show "slept_time (ts_msleep milliseconds results) results = milliseconds * 1000000" by linarith
  have "hd (ts_msleep milliseconds results) =
      \<lparr>tv_sec = milliseconds div 1000, tv_nsec = milliseconds mod 1000 * 1000000\<rparr>"
    using assms(1) by (cases results) (auto simp: ts_msleep_def split: sleep_result.split)
  with pos_mod_bound [of 1000 milliseconds]
  show "0 \<le> tv_nsec (hd (ts_msleep milliseconds results))" "tv_nsec (hd (ts_msleep milliseconds results)) < 1000000000"
    by simp_all
qed

end
