(* ===== verification/Spec2Isabelle.thy ===== *)
theory Spec2Isabelle
  imports Document_Correct ClientState_Correct Transport_Correct System_Correct Message_Fits Restart ServerMain Terminal_Correct
    System_Once Threads_Correct ClientMain_Correct Clock
begin

text \<open>
  TermSync is a terminal editor for several users. A server (\<open>server.c\<close>) keeps one document and orders
  all edits; clients (\<open>client.c\<close>) send one operation at a time, apply what the server acknowledges or
  broadcasts, and draw the text; a child process of the server (\<open>autosave.c\<close>) writes the document to
  the disk. This library models the nine C files of the program and proves what makes them correct
  together: all replicas converge to the text of the server, edits mean what their authors saw,
  messages and events survive the byte streams they cross, and files are never seen half-written.

  \<^bold>\<open>Parts, theories and code.\<close> The theories come in the order of the calls; a theory \<open>X_Correct\<close> holds
  the lemmas and properties of theory \<open>X\<close>. A definition has the name of the function or type it models.

  \<^item> \<open>Prelude\<close>: C values (strings, buffers filled by \<open>snprintf\<close>, \<open>int\<close>, \<open>size_t\<close>), undefined behaviour as
    \<open>None\<close>, decimal printing, and the generic interfaces.
  \<^item> \<open>Operation\<close>, \<open>Message\<close> (\<open>termsync.h\<close>, \<open>util.c\<close>, \<open>protocol.c\<close>): the structures \<open>TsOperation\<close> and
    \<open>TsMessage\<close> as records, \<open>TsOpKind\<close> as a datatype, constructors and names.
  \<^item> \<open>Edit\<close>: the abstract specification, an editor on lists of characters with its transformation \<open>xform\<close>.
  \<^item> \<open>Utf8\<close> (\<open>util.c\<close>): counting, offsets and \<open>ts_apply_operation_to_text\<close> on bytes.
  \<^item> \<open>Transform\<close>, \<open>Document\<close> (\<open>document.c\<close>): \<open>ts_transform_against\<close>, the bounded history and
    \<open>ts_document_process_operation\<close> with all its answers and its log line.
  \<^item> \<open>ClientState\<close> (\<open>client_state.c\<close>): replica, queue, the operation in flight, the handling of messages.
  \<^item> \<open>Json\<close>, \<open>Protocol\<close>, \<open>Transport\<close> (\<open>protocol.c\<close>, \<open>util.c\<close>): the string builder with its reallocations,
    escaping, key search, encoding and decoding, and whole lines over \<open>read\<close> and \<open>write\<close>.
  \<^item> \<open>Events\<close> (\<open>events.c\<close>): the lines that the server prints.
  \<^item> \<open>Server\<close>, \<open>ServerMain\<close> (\<open>server.c\<close>): the list of clients, \<open>dispatch_message\<close>, the life of a
    connection, shutdown; the signal handlers, listening, the accept loop and \<open>main\<close>.
  \<^item> \<open>Files\<close>, \<open>Autosave\<close> (\<open>autosave.c\<close>, \<open>util.c\<close>): the file operations over a store of files, the events in
    the pipe, the loop of the child with its timer; \<open>Restart\<close>: two runs of the server on one file.
  \<^item> \<open>Terminal\<close> (\<open>client.c\<close>): the linked list of incoming messages over an explicit store of nodes, cursor
    and keys, and the drawing as a list of drawing calls; \<open>ClientMain\<close>: connecting, the loop of the user
    interface and \<open>main\<close>.
  \<^item> \<open>Threads\<close> (\<open>server.c\<close>, \<open>client.c\<close>): the thread of a connection and the reader thread, over the results
    of \<open>read\<close> and with the steps of the other threads as an argument.
  \<^item> \<open>Clock\<close> (\<open>autosave.c\<close>, \<open>util.c\<close>): the clock of the save process and sleeping.
  \<^item> \<open>System\<close>: server and clients composed over channels in both directions, one event per step.
    \<open>System_Inv\<close> has the invariant, \<open>System_Run\<close> a concrete run, \<open>System_Correct\<close> the properties;
    \<open>System_Once\<close> adds a log of what is typed.
  \<^item> \<open>Message_Fits\<close>: the fixed buffers of every message that is received or sent.

  \<^bold>\<open>State and effects.\<close> State is a record that is passed through. What a function sends, prints, writes to
  the pipe, closes or draws is part of its result, in the order of the calls. Results of system calls
  that are read (\<open>read\<close>, \<open>write\<close>, \<open>select\<close>, \<open>accept\<close>, \<open>fork\<close>, the clock) are arguments; in \<open>Files\<close> every
  library call consumes one outcome of a list, and the store remembers its past states, so that
  theorems about all lists and all past states cover every failure and a crash at every point.
  Undefined behaviour (an access outside an object, signed overflow) is the value \<open>None\<close>; error codes
  are values. Loops are recursive functions that are proved to terminate; the loop over the incoming
  messages is a \<open>partial_function\<close> and is proved to return.

  \<^bold>\<open>What the lemmas show.\<close>

  \<^item> The text routines implement the abstract editor (locale \<open>text_model\<close>), so deletions hit the intended
    character, insertions keep their neighbours and concurrent operations converge; an operation is
    answered by a new document exactly if its base version is outside of the history.
  \<^item> A client sends its operations once, in order, with fresh identifiers, one at a time, and applies
    exactly the next version; typed keys change the text to come as an editor would.
  \<^item> In the composed system every replica is a version of the server's text, and when nothing is under
    way all are equal to it, whatever the order of events; what is typed is applied once and in order.
  \<^item> Encoded messages are decoded to themselves, however the bytes are cut (locale \<open>framed_link\<close>,
    interpreted on the socket and on the pipe); buffers never overflow; long lines are refused. So the
    threads that read from a socket do what the steps of \<open>System\<close> do with whole messages, and clean up
    at the end of the connection.
  \<^item> The client handles every message of whole characters and every key, until the user quits; the server
    handles every connection, until a signal stops it.
  \<^item> Queues are first-in first-out (locale \<open>fifo\<close>, interpreted on the queue of operations and on the linked
    list); invariants and runs without undefined behaviour come from the locales \<open>inv_machine\<close> and
    \<open>safe_machine\<close>, interpreted on the document, the client and the whole system.
  \<^item> A file keeps its old content or has the whole new one; a save request, the timer and a shutdown bring
    the document to the disk, and the next server starts from it.
  \<^item> Some theorems show where the code does not do what it means to: a truncated character makes later
    edits read out of bounds, a short unicode escape overreads, an acknowledgement that overtakes a
    broadcast corrupts the replica, unlocked handshakes and unlocked pipe writes interfere, a log line
    can be split by a line break, the cursor jumps back when a pending deletion has become void.

  \<^bold>\<open>Bounds.\<close> \<open>size_t\<close> is 64 bits and \<open>int\<close> 32. The history limit bounds how far behind an operation may be,
  so the properties of the whole system count events: as many as the history holds. Version and
  operation counters are below \<open>INT_MAX\<close>, texts shorter than \<open>2 ^ 64\<close> bytes, and paths short enough for
  their suffixes within \<open>PATH_MAX\<close>. A line has at most \<open>TS_MAX_LINE_BYTES\<close>.

  \<^bold>\<open>Assumptions.\<close> Allocations succeed where no argument says otherwise. In \<open>System\<close> the server handles a
  message in one step and a user types from the first document on; the theorems about interleaved
  threads show what happens otherwise. The channels of \<open>System\<close> deliver messages as theory
  \<open>Transport_Correct\<close> proves it of the socket. The functions of the C locale and of curses are the
  record \<open>terminal_env\<close>, about which nothing is assumed but that the key codes of curses differ.

  \<^bold>\<open>Not modelled.\<close> The calls that only set something up for the operating system or the terminal: the
  arguments of \<open>getaddrinfo\<close>, \<open>socket\<close>, \<open>bind\<close> and \<open>connect\<close>, thread creation, and switching curses on and off;
  \<open>ts_document_destroy\<close>, which releases memory. Locks appear as the choice of what is one step. The end
  of a process by a signal is modelled for the server, which installs handlers, and not for the client.
  The tests, the makefile and the documents hold no code of the program.
\<close>

end
